theory Spec2Isabelle
  imports Complex_Main "HOL-Library.Log_Nat" "HOL-Library.Sublist"
begin

section \<open>Python values: exceptions and floats\<close>

text \<open>
  The Python sources under verification are \<^verbatim>\<open>app/utils/analytics.py\<close>,
  \<^verbatim>\<open>app/progress_tracker.py\<close> and \<^verbatim>\<open>app/api/plan_with_progress.py\<close>.
  Exceptions are values: a fallible function returns \<open>pyerror + 'a\<close>, with \<open>Inl\<close> for
  the exception that propagates out of it.
\<close>

datatype pyerror = ZeroDivisionError | ValueError | OverflowError

definition bnd :: "'e + 'a \<Rightarrow> ('a \<Rightarrow> 'e + 'b) \<Rightarrow> 'e + 'b" where
  "bnd m f = (case m of Inl e \<Rightarrow> Inl e | Inr v \<Rightarrow> f v)"

text \<open>
  A Python \<^verbatim>\<open>float\<close> is an IEEE 754 binary64 number. A finite one is the rational it
  denotes; the sign of zero is not kept (Python compares \<^verbatim>\<open>-0.0 == 0.0\<close> as equal and
  no operation below tells them apart). Python's unbounded \<^verbatim>\<open>int\<close> is \<open>int\<close>.
\<close>

datatype pyfloat = Fin rat | PosInf | NegInf | NaN

text \<open>\<open>binade x\<close> is the exponent \<open>e\<close> with \<open>2^e \<le> |x| < 2^(e+1)\<close>, for \<open>x \<noteq> 0\<close>.\<close>

definition binade :: "rat \<Rightarrow> int" where
  "binade x =
     (if 1 \<le> \<bar>x\<bar> then bitlen \<lfloor>\<bar>x\<bar>\<rfloor> - 1 else - bitlen (\<lceil>1 / \<bar>x\<bar>\<rceil> - 1))"

definition pow2 :: "int \<Rightarrow> rat" where
  "pow2 e = (if 0 \<le> e then 2 ^ nat e else 1 / 2 ^ nat (- e))"

definition round_half_even :: "rat \<Rightarrow> int" where
  "round_half_even x =
     (let f = \<lfloor>x\<rfloor>; r = x - of_int f
      in if r < 1 / 2 then f else if 1 / 2 < r then f + 1 else if even f then f else f + 1)"

text \<open>
  \<open>fl x\<close> rounds the exact result \<open>x\<close> of an operation to binary64, to nearest with ties
  to even: 53 significant bits, spacing \<open>2^(-1074)\<close> in the subnormal range, and infinity
  once the rounded magnitude reaches \<open>2^1024\<close>.
\<close>

definition fl :: "rat \<Rightarrow> pyfloat" where
  "fl x =
     (if x = 0 then Fin 0
      else let e = max (binade x) (- 1022) - 52;
               n = round_half_even (x / pow2 e)
           in if 971 < e \<or> (e = 971 \<and> 2 ^ 53 \<le> \<bar>n\<bar>)
              then (if 0 < x then PosInf else NegInf)
              else Fin (of_int n * pow2 e))"

definition fsign :: "pyfloat \<Rightarrow> int" where
  "fsign x =
     (case x of Fin a \<Rightarrow> (if 0 < a then 1 else if a < 0 then - 1 else 0)
      | PosInf \<Rightarrow> 1 | NegInf \<Rightarrow> - 1 | NaN \<Rightarrow> 0)"

definition signed_inf :: "int \<Rightarrow> pyfloat" where
  "signed_inf s = (if s = 0 then NaN else if 0 < s then PosInf else NegInf)"

text \<open>Float multiplication, subtraction and division. Only division raises.\<close>

fun fmul :: "pyfloat \<Rightarrow> pyfloat \<Rightarrow> pyfloat" where
  "fmul NaN y = NaN"
| "fmul x NaN = NaN"
| "fmul (Fin a) (Fin b) = fl (a * b)"
| "fmul x y = signed_inf (fsign x * fsign y)"

fun fsub :: "pyfloat \<Rightarrow> pyfloat \<Rightarrow> pyfloat" where
  "fsub NaN y = NaN"
| "fsub x NaN = NaN"
| "fsub (Fin a) (Fin b) = fl (a - b)"
| "fsub (Fin a) PosInf = NegInf"
| "fsub (Fin a) NegInf = PosInf"
| "fsub x (Fin b) = x"
| "fsub PosInf NegInf = PosInf"
| "fsub NegInf PosInf = NegInf"
| "fsub x y = NaN"

fun fdiv :: "pyfloat \<Rightarrow> pyfloat \<Rightarrow> pyerror + pyfloat" where
  "fdiv x (Fin b) =
     (if b = 0 then Inl ZeroDivisionError
      else case x of Fin a \<Rightarrow> Inr (fl (a / b)) | NaN \<Rightarrow> Inr NaN
           | _ \<Rightarrow> Inr (signed_inf (fsign x * fsign (Fin b))))"
| "fdiv x NaN = Inr NaN"
| "fdiv NaN y = Inr NaN"
| "fdiv (Fin a) y = Inr (Fin 0)"
| "fdiv x y = Inr NaN"

text \<open>\<^verbatim>\<open>x > 0\<close> on a float; false for NaN.\<close>

definition fpos :: "pyfloat \<Rightarrow> bool" where
  "fpos x = (0 < fsign x)"

text \<open>
  Conversion of an \<^verbatim>\<open>int\<close> operand of a mixed operation to \<^verbatim>\<open>float\<close>
  (\<^verbatim>\<open>OverflowError: int too large to convert to float\<close>), and true division
  \<^verbatim>\<open>a / b\<close> of two ints, which CPython rounds correctly from the exact quotient.
\<close>

definition float_of_int :: "int \<Rightarrow> pyerror + pyfloat" where
  "float_of_int n = (case fl (of_int n) of Fin y \<Rightarrow> Inr (Fin y) | _ \<Rightarrow> Inl OverflowError)"

definition int_truediv :: "int \<Rightarrow> int \<Rightarrow> pyerror + pyfloat" where
  "int_truediv a b =
     (if b = 0 then Inl ZeroDivisionError
      else case fl (of_int a / of_int b) of Fin y \<Rightarrow> Inr (Fin y) | _ \<Rightarrow> Inl OverflowError)"

text \<open>\<^verbatim>\<open>int(x)\<close> truncates towards zero; it raises on NaN and on an infinity.\<close>

definition py_int :: "pyfloat \<Rightarrow> pyerror + int" where
  "py_int x =
     (case x of Fin a \<Rightarrow> Inr (if 0 \<le> a then \<lfloor>a\<rfloor> else \<lceil>a\<rceil>)
      | NaN \<Rightarrow> Inl ValueError | _ \<Rightarrow> Inl OverflowError)"

text \<open>
  \<^verbatim>\<open>round(x, ndigits)\<close> on a float: CPython rounds the exact binary value to
  \<open>ndigits\<close> decimals (ties to even) and converts that decimal back to the nearest
  double. A non-finite argument is returned as it is.
\<close>

definition py_round :: "pyfloat \<Rightarrow> nat \<Rightarrow> pyfloat" where
  "py_round x ndigits =
     (case x of Fin a \<Rightarrow> fl (of_int (round_half_even (a * 10 ^ ndigits)) / 10 ^ ndigits)
      | _ \<Rightarrow> x)"

section \<open>The progress tracker\<close>

text \<open>
  \<^verbatim>\<open>ProgressTracker\<close> holds two dictionaries keyed by session id. The
  \<^verbatim>\<open>asyncio.Queue\<close> objects it hands out live on the heap and are shared with the
  subscriber, so the model keeps an explicit store of queues addressed by reference:
  \<open>queue_heap\<close> gives each queue's contents (oldest first) and \<open>next_queue\<close> is the next
  unused reference. The queues are unbounded, so \<^verbatim>\<open>put\<close> never waits.
  Strings other than the texts the analytics read are byte strings (UTF-8).
\<close>

type_synonym session_id = string
type_synonym queue_ref = nat

record progress_update =
  step :: int
  total_steps :: int
  progress_percent :: int
  agent_name :: string
  status :: string
  message :: string
  timestamp :: string

record progress_tracker =
  progress_data :: "session_id \<rightharpoonup> progress_update"
  subscribers :: "session_id \<rightharpoonup> queue_ref"
  queue_heap :: "queue_ref \<Rightarrow> progress_update list"
  next_queue :: queue_ref

definition subscribe :: "progress_tracker \<Rightarrow> session_id \<Rightarrow> queue_ref \<times> progress_tracker" where
  "subscribe tr sid =
     (let queue = next_queue tr
      in (queue, tr\<lparr>queue_heap := (queue_heap tr)(queue := []),
                      next_queue := Suc queue,
                      subscribers := (subscribers tr)(sid \<mapsto> queue)\<rparr>))"

definition unsubscribe :: "progress_tracker \<Rightarrow> session_id \<Rightarrow> progress_tracker" where
  "unsubscribe tr sid =
     (if sid \<in> dom (subscribers tr) then tr\<lparr>subscribers := (subscribers tr)(sid := None)\<rparr>
      else tr)"

text \<open>\<^verbatim>\<open>int((step / total_steps) * 100)\<close>\<close>

definition percent_of :: "int \<Rightarrow> int \<Rightarrow> pyerror + int" where
  "percent_of stp tot = bnd (int_truediv stp tot) (\<lambda>ratio. py_int (fmul ratio (Fin 100)))"

text \<open>
  \<open>now\<close> is what \<^verbatim>\<open>datetime.now().isoformat()\<close> returns during the call.
\<close>

definition update_progress ::
  "progress_tracker \<Rightarrow> session_id \<Rightarrow> int \<Rightarrow> int \<Rightarrow> string \<Rightarrow> string \<Rightarrow> string \<Rightarrow> string
     \<Rightarrow> pyerror + progress_tracker" where
  "update_progress tr sid stp tot agent st msg now =
     bnd (percent_of stp tot) (\<lambda>pct.
       let update = \<lparr>step = stp, total_steps = tot, progress_percent = pct,
                     agent_name = agent, status = st, message = msg, timestamp = now\<rparr>;
           tr1 = tr\<lparr>progress_data := (progress_data tr)(sid \<mapsto> update)\<rparr>
       in case subscribers tr1 sid of
            None \<Rightarrow> Inr tr1
          | Some queue \<Rightarrow> Inr (tr1\<lparr>queue_heap := (queue_heap tr1)(queue := queue_heap tr1 queue @ [update])\<rparr>))"

definition get_progress :: "progress_tracker \<Rightarrow> session_id \<Rightarrow> progress_update option" where
  "get_progress tr sid = progress_data tr sid"

text \<open>\<^verbatim>\<open>AGENT_STEPS\<close>; the pipeline only takes its length.\<close>

record agent_step =
  step_number :: int
  name :: string
  icon :: string
  description :: string

definition AGENT_STEPS :: "agent_step list" where
  "AGENT_STEPS =
    [\<lparr>step_number = 1, name = ''RAGAgent'', icon = [CHR 0xF0, CHR 0x9F, CHR 0x94, CHR 0x8D],
      description = ''Retrieving historical insights from vector database...''\<rparr>,
     \<lparr>step_number = 2, name = ''PersonaAgent'', icon = [CHR 0xF0, CHR 0x9F, CHR 0x91, CHR 0xA5],
      description = ''Generating 3 detailed customer personas...''\<rparr>,
     \<lparr>step_number = 3, name = ''LocationAgent'', icon = [CHR 0xF0, CHR 0x9F, CHR 0x93, CHR 0x8D],
      description = ''Analyzing location demographics and optimal radius...''\<rparr>,
     \<lparr>step_number = 4, name = ''CompetitorAgent'', icon = [CHR 0xF0, CHR 0x9F, CHR 0x8F, CHR 0x86],
      description = ''Researching competitors and market opportunities...''\<rparr>,
     \<lparr>step_number = 5, name = ''PlannerAgent'', icon = [CHR 0xF0, CHR 0x9F, CHR 0x92, CHR 0xB0],
      description = ''Creating 3 budget scenarios with channel allocation...''\<rparr>,
     \<lparr>step_number = 6, name = ''CreativeAgent'', icon = [CHR 0xF0, CHR 0x9F, CHR 0x8E, CHR 0xA8],
      description = ''Generating creative assets and ad copy...''\<rparr>,
     \<lparr>step_number = 7, name = ''PerformanceAgent'', icon = [CHR 0xF0, CHR 0x9F, CHR 0x93, CHR 0x88],
      description = ''Predicting performance metrics and ROI...''\<rparr>,
     \<lparr>step_number = 8, name = ''CriticAgent'', icon = [CHR 0xE2, CHR 0x9C, CHR 0x85],
      description = ''Evaluating plan quality and scoring...''\<rparr>]"

section \<open>The progress stream\<close>

text \<open>
  \<^verbatim>\<open>stream_progress.event_generator\<close>. Each turn of its loop awaits
  \<^verbatim>\<open>asyncio.wait_for(queue.get(), timeout=60.0)\<close>, which either delivers the next
  update of the queue or times out; the generator is run on the list of these results, in
  the order they happen. It yields server-sent events and ends in one of two states:
  \<open>Closed rest\<close>, the loop has left through \<^verbatim>\<open>break\<close> with \<open>rest\<close> never awaited,
  or \<open>Waiting\<close>, the loop is still running and awaits a further result.
\<close>

datatype wait_result = Got progress_update | TimeoutError

datatype sse_event = Progress_event progress_update | Timeout_event | Ping_event

datatype stream_end = Closed "wait_result list" | Waiting

definition max_keep_alives :: nat where
  "max_keep_alives = 5"

fun event_generator :: "nat \<Rightarrow> wait_result list \<Rightarrow> sse_event list \<times> stream_end" where
  "event_generator keep_alive_count [] = ([], Waiting)"
| "event_generator keep_alive_count (Got update # rest) =
     (if progress_percent update = 100 then ([Progress_event update], Closed rest)
      else case event_generator 0 rest of
             (out, e) \<Rightarrow> (Progress_event update # out, e))"
| "event_generator keep_alive_count (TimeoutError # rest) =
     (if max_keep_alives \<le> keep_alive_count + 1 then ([Timeout_event], Closed rest)
      else case event_generator (keep_alive_count + 1) rest of
             (out, e) \<Rightarrow> (Ping_event # out, e))"

text \<open>
  \<^verbatim>\<open>stream_progress\<close>: subscribe, run the generator from a count of 0, and
  unsubscribe in the \<^verbatim>\<open>finally\<close> clause once the loop has been left.
\<close>

definition stream_progress ::
  "progress_tracker \<Rightarrow> session_id \<Rightarrow> wait_result list \<Rightarrow> sse_event list \<times> stream_end \<times> progress_tracker" where
  "stream_progress tr sid results =
     (case subscribe tr sid of
        (queue, tr1) \<Rightarrow>
          (case event_generator 0 results of
             (out, Closed rest) \<Rightarrow> (out, Closed rest, unsubscribe tr1 sid)
           | (out, Waiting) \<Rightarrow> (out, Waiting, tr1)))"

section \<open>The pipeline\<close>

text \<open>
  \<^verbatim>\<open>create_plan_with_progress\<close> calls the stores and the eight agents in a fixed
  order. What each of these calls does in one run is its outcome: it returns, or it raises
  an exception \<open>e\<close>, of which the pipeline only uses \<^verbatim>\<open>str(e)\<close>. An outcome covers the call
  together with the bookkeeping that follows it up to the next progress update (timing,
  logging, \<^verbatim>\<open>model_dump\<close>). \<open>analytics\<close> is the loop after the performance agent that
  attaches reach analytics and budget scaling to the three scenarios and rebuilds the
  performance set. \<open>clock k\<close> is the timestamp of the \<open>k\<close>-th progress update of the run.
\<close>

datatype 'a outcome = Returns 'a | Raises string

record collaborators =
  get_user_by_session :: "nat option outcome"
  create_session :: "nat outcome"
  store_business_profile :: "unit outcome"
  augment_profile_with_insights :: "unit outcome"
  generate_persona :: "unit outcome"
  recommend_miles :: "unit outcome"
  analyze_competitors :: "unit outcome"
  generate_scenarios :: "unit outcome"
  generate_assets :: "unit outcome"
  predict_performance :: "unit outcome"
  analytics :: "unit outcome"
  evaluate_plan :: "unit outcome"
  save_plan :: "unit outcome"
  store_plan :: "unit outcome"
  clock :: "nat \<Rightarrow> string"

text \<open>
  \<^verbatim>\<open>user_id = get_user_by_session(session_id)\<close>, then
  \<^verbatim>\<open>if not user_id: user_id = create_session(session_id)\<close>.
\<close>

definition create_user_session :: "collaborators \<Rightarrow> unit outcome" where
  "create_user_session env =
     (case get_user_by_session env of
        Raises m \<Rightarrow> Raises m
      | Returns user_id \<Rightarrow>
          (if user_id = None \<or> user_id = Some 0
           then (case create_session env of Raises m \<Rightarrow> Raises m | Returns u \<Rightarrow> Returns ())
           else Returns ()))"

text \<open>
  The body of the \<^verbatim>\<open>try\<close> block is a straight line of progress updates and calls.
  \<open>Publish step agent status message\<close> is
  \<^verbatim>\<open>await progress_tracker.update_progress(session_id, step, total_steps, agent, status, message)\<close>.
\<close>

datatype action = Publish int string string string | Call "collaborators \<Rightarrow> unit outcome"

definition total_steps_of_run :: int where
  "total_steps_of_run = int (length AGENT_STEPS)"

definition try_body :: "action list" where
  "try_body =
    [Call create_user_session,
     Call store_business_profile,
     Publish 1 ''RAGAgent'' ''running''
       ([CHR 0xF0, CHR 0x9F, CHR 0x94, CHR 0x8D] @ '' Retrieving historical insights from vector database...''),
     Call augment_profile_with_insights,
     Publish 2 ''PersonaAgent'' ''running''
       ([CHR 0xF0, CHR 0x9F, CHR 0x91, CHR 0xA5] @ '' Generating 3 detailed customer personas...''),
     Call generate_persona,
     Publish 3 ''LocationAgent'' ''running''
       ([CHR 0xF0, CHR 0x9F, CHR 0x93, CHR 0x8D] @ '' Analyzing location demographics and optimal radius...''),
     Call recommend_miles,
     Publish 4 ''CompetitorAgent'' ''running''
       ([CHR 0xF0, CHR 0x9F, CHR 0x8F, CHR 0x86] @ '' Researching competitors and market opportunities...''),
     Call analyze_competitors,
     Publish 5 ''PlannerAgent'' ''running''
       ([CHR 0xF0, CHR 0x9F, CHR 0x92, CHR 0xB0] @ '' Creating 3 budget scenarios with channel allocation...''),
     Call generate_scenarios,
     Publish 6 ''CreativeAgent'' ''running''
       ([CHR 0xF0, CHR 0x9F, CHR 0x8E, CHR 0xA8] @ '' Generating creative assets and ad copy...''),
     Call generate_assets,
     Publish 7 ''PerformanceAgent'' ''running''
       ([CHR 0xF0, CHR 0x9F, CHR 0x93, CHR 0x88] @ '' Predicting performance metrics and ROI...''),
     Call predict_performance,
     Call analytics,
     Publish 8 ''CriticAgent'' ''running''
       ([CHR 0xE2, CHR 0x9C, CHR 0x85] @ '' Evaluating plan quality and scoring...''),
     Call evaluate_plan,
     Publish total_steps_of_run ''Complete'' ''done''
       ([CHR 0xE2, CHR 0x9C, CHR 0xA8] @ '' Marketing plan generation complete!''),
     Call save_plan,
     Call store_plan]"

text \<open>
  An exception that leaves the \<^verbatim>\<open>try\<close> body comes from a collaborator or from
  \<^verbatim>\<open>update_progress\<close> itself; \<open>str_of\<close> is its \<^verbatim>\<open>str(e)\<close>.
\<close>

datatype exn = Collaborator_error string | Builtin_error pyerror

definition str_of :: "exn \<Rightarrow> string" where
  "str_of e =
     (case e of Collaborator_error m \<Rightarrow> m
      | Builtin_error ZeroDivisionError \<Rightarrow> ''division by zero''
      | Builtin_error ValueError \<Rightarrow> ''cannot convert float NaN to integer''
      | Builtin_error OverflowError \<Rightarrow> ''integer division result too large for a float'')"

text \<open>
  Running the body threads the tracker and the number of updates published so far; it
  stops at the first exception.
\<close>

fun run_actions ::
  "collaborators \<Rightarrow> session_id \<Rightarrow> action list \<Rightarrow> progress_tracker \<times> nat
     \<Rightarrow> exn option \<times> progress_tracker \<times> nat" where
  "run_actions env sid [] (tr, k) = (None, tr, k)"
| "run_actions env sid (Publish stp agent st msg # rest) (tr, k) =
     (case update_progress tr sid stp total_steps_of_run agent st msg (clock env k) of
        Inl e \<Rightarrow> (Some (Builtin_error e), tr, k)
      | Inr tr1 \<Rightarrow> run_actions env sid rest (tr1, Suc k))"
| "run_actions env sid (Call f # rest) (tr, k) =
     (case f env of
        Raises m \<Rightarrow> (Some (Collaborator_error m), tr, k)
      | Returns u \<Rightarrow> run_actions env sid rest (tr, k))"

text \<open>
  The endpoint returns the plan, or its \<^verbatim>\<open>except Exception as e\<close> handler publishes
  the error update with step \<open>0\<close> and raises \<^verbatim>\<open>HTTPException(status_code=500, detail=str(e))\<close>.
  \<open>sid\<close> is the session id after \<^verbatim>\<open>plan_request.session_id or str(uuid.uuid4())\<close>.
\<close>

datatype response = Plan | HTTPException int string | Uncaught pyerror

definition error_prefix :: string where
  "error_prefix = [CHR 0xE2, CHR 0x9D, CHR 0x8C] @ '' Error: ''"

definition create_plan_with_progress ::
  "collaborators \<Rightarrow> session_id \<Rightarrow> progress_tracker \<Rightarrow> response \<times> progress_tracker" where
  "create_plan_with_progress env sid tr =
     (case run_actions env sid try_body (tr, 0) of
        (None, tr1, k) \<Rightarrow> (Plan, tr1)
      | (Some e, tr1, k) \<Rightarrow>
          (case update_progress tr1 sid 0 total_steps_of_run ''Error'' ''error''
                  (error_prefix @ str_of e) (clock env k) of
             Inl e2 \<Rightarrow> (Uncaught e2, tr1)
           | Inr tr2 \<Rightarrow> (HTTPException 500 (str_of e), tr2)))"

text \<open>
  What a subscriber finds in its queue when it subscribes to the session and the pipeline
  then runs for that session.
\<close>

definition observed :: "collaborators \<Rightarrow> session_id \<Rightarrow> progress_tracker \<Rightarrow> progress_update list" where
  "observed env sid tr =
     (case subscribe tr sid of
        (queue, tr1) \<Rightarrow> queue_heap (snd (create_plan_with_progress env sid tr1)) queue)"

section \<open>Reach analytics\<close>

text \<open>
  A Python \<^verbatim>\<open>str\<close> that the analytics read is a list of Unicode code points; \<open>codepoints\<close>
  turns an ASCII literal into one.

  \<^verbatim>\<open>\d\<close> in a \<^verbatim>\<open>str\<close> pattern and \<^verbatim>\<open>int\<close> both accept every decimal digit of
  Unicode (category Nd). These digits come in runs of ten, from the digit zero of a script
  to its digit nine; \<open>decimal_zeros\<close> lists the zero of each run (Unicode 14.0, the version
  of CPython 3.11).
\<close>

type_synonym pystr = "int list"

definition codepoints :: "string \<Rightarrow> pystr" where
  "codepoints s = map of_char s"

definition decimal_zeros :: "int list" where
  "decimal_zeros =
    [48, 1632, 1776, 1984, 2406, 2534, 2662, 2790, 2918, 3046, 3174, 3302, 3430, 3558,
     3664, 3792, 3872, 4160, 4240, 6112, 6160, 6470, 6608, 6784, 6800, 6992, 7088,
     7232, 7248, 42528, 43216, 43264, 43472, 43504, 43600, 44016, 65296, 66720, 68912,
     69734, 69872, 69942, 70096, 70384, 70736, 70864, 71248, 71360, 71472, 71904,
     72016, 72784, 73040, 73120, 92768, 92864, 93008, 120782, 120792, 120802, 120812,
     120822, 123200, 123632, 125264, 130032]"

definition is_digit :: "int \<Rightarrow> bool" where
  "is_digit c = list_ex (\<lambda>z. z \<le> c \<and> c < z + 10) decimal_zeros"

definition digit_value :: "int \<Rightarrow> int" where
  "digit_value c =
     (case filter (\<lambda>z. z \<le> c \<and> c < z + 10) decimal_zeros of
        z # zs \<Rightarrow> c - z
      | [] \<Rightarrow> 0)"

text \<open>
  \<^verbatim>\<open>re.findall(r'[\d,]+', reach_string)\<close>: the maximal runs of digits and commas,
  from left to right. \<open>scan cur s\<close> carries the run being read. The comma is code point 44.
\<close>

definition in_class :: "int \<Rightarrow> bool" where
  "in_class c = (is_digit c \<or> c = 44)"

fun scan :: "pystr \<Rightarrow> pystr \<Rightarrow> pystr list" where
  "scan cur [] = (if cur = [] then [] else [cur])"
| "scan cur (c # cs) =
     (if in_class c then scan (cur @ [c]) cs
      else if cur = [] then scan [] cs else cur # scan [] cs)"

definition findall :: "pystr \<Rightarrow> pystr list" where
  "findall s = scan [] s"

text \<open>
  \<^verbatim>\<open>int(token.replace(',', ''))\<close>: \<^verbatim>\<open>int\<close> raises \<^verbatim>\<open>ValueError\<close> on a string
  that is not a decimal numeral, the empty string included, and on one with more digits
  than \<^verbatim>\<open>sys.get_int_max_str_digits()\<close>, which is 4300 by default.
\<close>

definition remove_commas :: "pystr \<Rightarrow> pystr" where
  "remove_commas s = filter (\<lambda>c. c \<noteq> 44) s"

definition int_max_str_digits :: int where
  "int_max_str_digits = 4300"

definition int_of_string :: "pystr \<Rightarrow> pyerror + int" where
  "int_of_string s =
     (if s = [] \<or> \<not> list_all is_digit s \<or> int_max_str_digits < int (length s) then Inl ValueError
      else Inr (foldl (\<lambda>n c. 10 * n + digit_value c) 0 s))"

text \<open>
  \<^verbatim>\<open>location.lower()\<close> and the substring test \<^verbatim>\<open>city in location_lower\<close>. The
  city names are ASCII. Outside ASCII two code points have a lower case with an ASCII
  letter in it: the capital I with dot above (U+0130), whose lower case is \<open>i\<close> followed by
  U+0307, and the Kelvin sign (U+212A), whose lower case is \<open>k\<close>. Every other code point
  above 127 has a lower case without ASCII code points; it is left as it is, which the
  substring test against an ASCII name cannot tell from its true lower case.
\<close>

definition lower_codepoint :: "int \<Rightarrow> pystr" where
  "lower_codepoint c =
     (if 65 \<le> c \<and> c \<le> 90 then [c + 32]
      else if c = 304 then [105, 775]
      else if c = 8490 then [107]
      else [c])"

definition lower :: "pystr \<Rightarrow> pystr" where
  "lower s = concat (map lower_codepoint s)"

fun contains :: "pystr \<Rightarrow> pystr \<Rightarrow> bool" where
  "contains [] sub = (sub = [])"
| "contains (c # cs) sub = (prefix sub (c # cs) \<or> contains cs sub)"

text \<open>The dictionary \<^verbatim>\<open>population_estimates\<close>, in insertion order.\<close>

definition population_estimates :: "(pystr \<times> int) list" where
  "population_estimates =
    [(codepoints ''new york'', 8000000), (codepoints ''los angeles'', 5000000),
     (codepoints ''chicago'', 3500000), (codepoints ''san francisco'', 1200000),
     (codepoints ''seattle'', 900000), (codepoints ''boston'', 800000),
     (codepoints ''portland'', 700000), (codepoints ''denver'', 800000),
     (codepoints ''austin'', 1000000), (codepoints ''miami'', 900000)]"

fun match_location :: "(pystr \<times> int) list \<Rightarrow> pystr \<Rightarrow> int option" where
  "match_location [] location_lower = None"
| "match_location ((city, pop) # rest) location_lower =
     (if contains location_lower city then Some pop else match_location rest location_lower)"

text \<open>
  The function returns one of two dictionaries. The key \<^verbatim>\<open>percentage_display\<close>, a
  rendering of the two rounded percentages as text, is left out.
\<close>

datatype reach_analytics =
    Unknown_reach (reach_min: int) (reach_max: int) (percentage: string)
      (population_estimate: string)
  | Reach (reach_min: int) (reach_max: int) (target_population: int)
      (percentage_min: pyfloat) (percentage_max: pyfloat)

definition calculate_reach_percentage :: "pystr \<Rightarrow> pystr \<Rightarrow> bool \<Rightarrow> pyerror + reach_analytics" where
  "calculate_reach_percentage reach_string location is_local =
     (let numbers = findall reach_string
      in if numbers = [] then Inr (Unknown_reach 0 0 ''Unknown'' ''Unknown'')
         else
           bnd (int_of_string (remove_commas (numbers ! 0))) (\<lambda>rmin.
           bnd (if 1 < length numbers then int_of_string (remove_commas (numbers ! 1))
                else Inr rmin) (\<lambda>rmax.
           let population =
                 (case match_location population_estimates (lower location) of
                    Some pop \<Rightarrow> pop
                  | None \<Rightarrow> if is_local then 500000 else 10000000)
           in
           bnd (if is_local
                then bnd (float_of_int population) (\<lambda>p. py_int (fmul p (Fin (1 / 4))))
                else Inr population) (\<lambda>target.
           bnd (int_truediv rmin target) (\<lambda>q1.
           bnd (int_truediv rmax target) (\<lambda>q2.
           Inr (Reach rmin rmax target
                  (py_round (fmul q1 (Fin 100)) 1)
                  (py_round (fmul q2 (Fin 100)) 1))))))))"

section \<open>Budget scaling\<close>

text \<open>The format \<^verbatim>\<open>f"{n:,}"\<close> of an int: decimal digits in groups of three.\<close>

definition digit_char :: "int \<Rightarrow> char" where
  "digit_char d = char_of (48 + d)"

function decimal :: "int \<Rightarrow> string" where
  "decimal n = (if n < 10 then [digit_char n] else decimal (n div 10) @ [digit_char (n mod 10)])"
  by pat_completeness auto
termination
  by (relation "measure nat") auto

fun group3 :: "string \<Rightarrow> string" where
  "group3 (a # b # c # d # rest) = a # b # c # CHR '','' # group3 (d # rest)"
| "group3 ds = ds"

definition format_thousands :: "int \<Rightarrow> string" where
  "format_thousands n =
     (if n < 0 then ''-'' else []) @ rev (group3 (rev (decimal \<bar>n\<bar>)))"

record budget_scaling =
  current_budget :: int
  recommended_budget :: int
  budget_increase :: int
  budget_increase_percent :: pyfloat
  current_reach_range :: string
  target_reach_range :: string
  current_cost_per_reach :: pyfloat
  new_cost_per_reach :: pyfloat
  efficiency_change_percent :: pyfloat

text \<open>
  \<^verbatim>\<open>math.pow(x, y)\<close> for a finite exponent \<open>y\<close> that is positive and not an integer, as
  the source passes. CPython's wrapper returns NaN for a NaN base and infinity for an
  infinite one without calling the C library; for a finite base it calls the C library's
  \<^verbatim>\<open>pow\<close> and raises \<^verbatim>\<open>ValueError\<close> (math domain error) when the base is negative,
  \<^verbatim>\<open>OverflowError\<close> (math range error) when the result is infinite. The C library's
  function on a finite base that is not negative is the parameter \<open>libm_pow\<close>, with finite
  doubles as rationals.
\<close>

definition math_pow :: "(rat \<Rightarrow> rat \<Rightarrow> pyfloat) \<Rightarrow> pyfloat \<Rightarrow> rat \<Rightarrow> pyerror + pyfloat" where
  "math_pow libm_pow x y =
     (case x of
        NaN \<Rightarrow> Inr NaN
      | PosInf \<Rightarrow> Inr PosInf
      | NegInf \<Rightarrow> Inr PosInf
      | Fin a \<Rightarrow>
          (if a < 0 then Inl ValueError
           else case libm_pow a y of
                  Fin r \<Rightarrow> Inr (Fin r)
                | NaN \<Rightarrow> Inl ValueError
                | _ \<Rightarrow> Inl OverflowError))"

text \<open>The literal \<^verbatim>\<open>1.3\<close> is the double nearest to \<open>13/10\<close>.\<close>

definition literal_1_3 :: rat where
  "literal_1_3 = 5854679515581645 / 4503599627370496"

text \<open>
  An int \<open>0\<close> in a float-valued field is \<open>Fin 0\<close>.
  \<open>ratio_percent q\<close> is \<^verbatim>\<open>round((q - 1) * 100, 1)\<close>.
\<close>

definition ratio_percent :: "pyfloat \<Rightarrow> pyfloat" where
  "ratio_percent q = py_round (fmul (fsub q (Fin 1)) (Fin 100)) 1"

definition int_times_float :: "int \<Rightarrow> pyfloat \<Rightarrow> pyerror + pyfloat" where
  "int_times_float n x = bnd (float_of_int n) (\<lambda>f. Inr (fmul f x))"

definition calculate_budget_scaling ::
  "(rat \<Rightarrow> rat \<Rightarrow> pyfloat) \<Rightarrow> int \<Rightarrow> int \<Rightarrow> int \<Rightarrow> pyfloat
     \<Rightarrow> pyerror + budget_scaling" where
  "calculate_budget_scaling libm_pow cur_budget cur_reach_min cur_reach_max target_multiplier =
     bnd (int_truediv (cur_reach_min + cur_reach_max) 2) (\<lambda>current_reach_avg.
     bnd (bnd (int_times_float cur_reach_min target_multiplier) py_int) (\<lambda>target_reach_min.
     bnd (bnd (int_times_float cur_reach_max target_multiplier) py_int) (\<lambda>target_reach_max.
     bnd (py_int (fmul current_reach_avg target_multiplier)) (\<lambda>target_reach_avg.
     bnd (math_pow libm_pow target_multiplier literal_1_3) (\<lambda>budget_multiplier.
     bnd (bnd (int_times_float cur_budget budget_multiplier) py_int) (\<lambda>recommended.
     bnd (if fpos current_reach_avg
          then bnd (float_of_int cur_budget) (\<lambda>f. fdiv f current_reach_avg)
          else Inr (Fin 0)) (\<lambda>cost.
     bnd (if 0 < target_reach_avg then int_truediv recommended target_reach_avg
          else Inr (Fin 0)) (\<lambda>new_cost.
     bnd (if 0 < cur_budget
          then bnd (int_truediv recommended cur_budget) (\<lambda>q. Inr (ratio_percent q))
          else Inr (Fin 0)) (\<lambda>increase_percent.
     bnd (if fpos cost then bnd (fdiv new_cost cost) (\<lambda>q. Inr (ratio_percent q))
          else Inr (Fin 0)) (\<lambda>efficiency.
     Inr \<lparr>current_budget = cur_budget,
          recommended_budget = recommended,
          budget_increase = recommended - cur_budget,
          budget_increase_percent = increase_percent,
          current_reach_range =
            format_thousands cur_reach_min @ ''-'' @ format_thousands cur_reach_max,
          target_reach_range =
            format_thousands target_reach_min @ ''-'' @ format_thousands target_reach_max,
          current_cost_per_reach = py_round cost 2,
          new_cost_per_reach = py_round new_cost 2,
          efficiency_change_percent = efficiency\<rparr>))))))))))"

section \<open>Auxiliary notions for the statements\<close>

text \<open>
  The updates a stream forwards, and the updates among the results it has awaited.
\<close>

fun forwarded :: "sse_event list \<Rightarrow> progress_update list" where
  "forwarded [] = []"
| "forwarded (Progress_event u # out) = u # forwarded out"
| "forwarded (x # out) = forwarded out"

fun received :: "wait_result list \<Rightarrow> progress_update list" where
  "received [] = []"
| "received (Got u # ws) = u # received ws"
| "received (TimeoutError # ws) = received ws"

text \<open>
  \<open>idle k ws\<close> is the count of consecutive timeouts the loop has reached after awaiting
  the results \<open>ws\<close>, starting from a count of \<open>k\<close>: an update resets it, a timeout adds one.
\<close>

fun idle :: "nat \<Rightarrow> wait_result list \<Rightarrow> nat" where
  "idle k [] = k"
| "idle k (Got u # ws) = idle 0 ws"
| "idle k (TimeoutError # ws) = idle (Suc k) ws"

text \<open>
  The tracker that \<^verbatim>\<open>ProgressTracker()\<close> constructs: both dictionaries empty and no
  queue allocated.
\<close>

definition new_tracker :: progress_tracker where
  "new_tracker = \<lparr>progress_data = Map.empty, subscribers = Map.empty,
                   queue_heap = (\<lambda>q. []), next_queue = 0\<rparr>"

text \<open>
  A sequence of \<^verbatim>\<open>update_progress\<close> calls, for any sessions, run one after the other;
  a call that raises leaves the tracker as it was. \<open>updates_for sid calls\<close> are the updates
  these calls build for session \<open>sid\<close>.
\<close>

datatype publish_call = Update_progress session_id int int string string string string

fun run_calls :: "progress_tracker \<Rightarrow> publish_call list \<Rightarrow> progress_tracker" where
  "run_calls tr [] = tr"
| "run_calls tr (Update_progress sid stp tot agent st msg now # calls) =
     (case update_progress tr sid stp tot agent st msg now of
        Inl e \<Rightarrow> run_calls tr calls
      | Inr tr1 \<Rightarrow> run_calls tr1 calls)"

fun updates_for :: "session_id \<Rightarrow> publish_call list \<Rightarrow> progress_update list" where
  "updates_for sid [] = []"
| "updates_for sid (Update_progress s stp tot agent st msg now # calls) =
     (case percent_of stp tot of
        Inr pct \<Rightarrow>
          (if s = sid
           then \<lparr>step = stp, total_steps = tot, progress_percent = pct, agent_name = agent,
                  status = st, message = msg, timestamp = now\<rparr> # updates_for sid calls
           else updates_for sid calls)
      | Inl e \<Rightarrow> updates_for sid calls)"

text \<open>
  Every queue a session is subscribed with has been allocated: no dictionary entry refers
  to a queue that \<^verbatim>\<open>asyncio.Queue()\<close> has yet to create.
\<close>

definition refs_allocated :: "progress_tracker \<Rightarrow> bool" where
  "refs_allocated tr = (\<forall>s q. subscribers tr s = Some q \<longrightarrow> q < next_queue tr)"

text \<open>
  Notions for the pipeline. \<open>summary\<close> keeps the percentage and the status of an update.
  \<open>first_failure env body\<close> is the \<^verbatim>\<open>str(e)\<close> of the first collaborator call of the body
  that raises, if any does. \<open>emitted env body\<close> lists percentage and status of the updates
  the body publishes before that, \<open>planned body\<close> of those it publishes when nothing raises,
  and \<open>valid_publishes body\<close> says that \<^verbatim>\<open>update_progress\<close> itself raises in none of them.
\<close>

definition summary :: "progress_update \<Rightarrow> int \<times> string" where
  "summary u = (progress_percent u, status u)"

fun emitted :: "collaborators \<Rightarrow> action list \<Rightarrow> (int \<times> string) list" where
  "emitted env [] = []"
| "emitted env (Publish stp agent st msg # rest) =
     (case percent_of stp total_steps_of_run of
        Inr pct \<Rightarrow> (pct, st) # emitted env rest
      | Inl e \<Rightarrow> [])"
| "emitted env (Call f # rest) =
     (case f env of Raises m \<Rightarrow> [] | Returns u \<Rightarrow> emitted env rest)"

fun planned :: "action list \<Rightarrow> (int \<times> string) list" where
  "planned [] = []"
| "planned (Publish stp agent st msg # rest) =
     (case percent_of stp total_steps_of_run of
        Inr pct \<Rightarrow> (pct, st) # planned rest
      | Inl e \<Rightarrow> [])"
| "planned (Call f # rest) = planned rest"

fun first_failure :: "collaborators \<Rightarrow> action list \<Rightarrow> string option" where
  "first_failure env [] = None"
| "first_failure env (Publish stp agent st msg # rest) = first_failure env rest"
| "first_failure env (Call f # rest) =
     (case f env of Raises m \<Rightarrow> Some m | Returns u \<Rightarrow> first_failure env rest)"

fun valid_publishes :: "action list \<Rightarrow> bool" where
  "valid_publishes [] = True"
| "valid_publishes (Publish stp agent st msg # rest) =
     (case percent_of stp total_steps_of_run of
        Inr pct \<Rightarrow> valid_publishes rest
      | Inl e \<Rightarrow> False)"
| "valid_publishes (Call f # rest) = valid_publishes rest"

definition run_response :: "collaborators \<Rightarrow> session_id \<Rightarrow> progress_tracker \<Rightarrow> response" where
  "run_response env sid tr = fst (create_plan_with_progress env sid (snd (subscribe tr sid)))"

text \<open>Sample collaborators: all calls return, or exactly one of them raises.\<close>

definition all_return :: collaborators where
  "all_return =
     \<lparr>get_user_by_session = Returns None, create_session = Returns 1,
      store_business_profile = Returns (), augment_profile_with_insights = Returns (),
      generate_persona = Returns (), recommend_miles = Returns (),
      analyze_competitors = Returns (), generate_scenarios = Returns (),
      generate_assets = Returns (), predict_performance = Returns (),
      analytics = Returns (), evaluate_plan = Returns (), save_plan = Returns (),
      store_plan = Returns (), clock = (\<lambda>k. ''2025-01-01T00:00:00'')\<rparr>"

definition rag_fails :: collaborators where
  "rag_fails = all_return\<lparr>augment_profile_with_insights := Raises ''boom''\<rparr>"

definition planner_fails :: collaborators where
  "planner_fails = all_return\<lparr>generate_scenarios := Raises ''quota exceeded''\<rparr>"

definition save_fails :: collaborators where
  "save_fails = all_return\<lparr>save_plan := Raises ''database is locked''\<rparr>"

text \<open>
  A C library \<^verbatim>\<open>pow\<close> known at one point: \<^verbatim>\<open>pow(2.0, 1.3)\<close> is the double
  \<^verbatim>\<open>0x1.3b2c47bff8329p+1\<close> = 2.4622888266898326, the double nearest to the real power.
\<close>

definition sample_libm_pow :: "rat \<Rightarrow> rat \<Rightarrow> pyfloat" where
  "sample_libm_pow x y =
     (if x = 2 \<and> y = literal_1_3 then Fin (5544581521179433 / 2251799813685248) else NaN)"

section \<open>The progress stream closes on 100 percent\<close>

lemma generator_closed:
  "k < 5 \<Longrightarrow> event_generator k ws = (out, Closed rest) \<Longrightarrow>
     \<exists>pre x. ws = pre @ x # rest \<and> forwarded out = received (pre @ [x]) \<and>
       (\<forall>u \<in> set (received pre). progress_percent u \<noteq> 100) \<and>
       (\<forall>p. prefix p pre \<longrightarrow> idle k p < 5) \<and>
       ((\<exists>u. x = Got u \<and> progress_percent u = 100) \<or> (x = TimeoutError \<and> idle k pre = 4))"
proof (induction k ws arbitrary: out rule: event_generator.induct)
  case (1 k)
  then show ?case by simp
next
  case (2 k u ws)
  show ?case
  proof (cases "progress_percent u = 100")
    case True
    with 2 have "out = [Progress_event u]" "rest = ws" by auto
    with True 2(2) show ?thesis by (intro exI[of _ "[]"] exI[of _ "Got u"]) simp
  next
    case False
    with 2(3) obtain out' where o: "event_generator 0 ws = (out', Closed rest)"
      "out = Progress_event u # out'"
      by (auto split: prod.splits)
    have "(0::nat) < 5" by simp
    from 2(1)[OF False this o(1)] obtain pre x where h:
      "ws = pre @ x # rest" "forwarded out' = received (pre @ [x])"
      "\<forall>u \<in> set (received pre). progress_percent u \<noteq> 100"
      "\<forall>p. prefix p pre \<longrightarrow> idle 0 p < 5"
      "(\<exists>u. x = Got u \<and> progress_percent u = 100) \<or> (x = TimeoutError \<and> idle 0 pre = 4)"
      by blast
    have "\<forall>p. prefix p (Got u # pre) \<longrightarrow> idle k p < 5"
      using h(4) 2(2) by (auto simp: prefix_Cons)
    with h False o(2) show ?thesis
      by (intro exI[of _ "Got u # pre"] exI[of _ x]) simp
  qed
next
  case (3 k ws)
  show ?case
  proof (cases "max_keep_alives \<le> k + 1")
    case True
    with 3 have "out = [Timeout_event]" "rest = ws" by auto
    moreover from True 3(2) have "k = 4" by (simp add: max_keep_alives_def)
    ultimately show ?thesis by (intro exI[of _ "[]"] exI[of _ "TimeoutError"]) simp
  next
    case False
    with 3(3) obtain out' where o: "event_generator (k + 1) ws = (out', Closed rest)"
      "out = Ping_event # out'"
      by (auto split: prod.splits)
    from False have k1: "k + 1 < 5" by (simp add: max_keep_alives_def)
    from 3(1)[OF False k1 o(1)] obtain pre x where h:
      "ws = pre @ x # rest" "forwarded out' = received (pre @ [x])"
      "\<forall>u \<in> set (received pre). progress_percent u \<noteq> 100"
      "\<forall>p. prefix p pre \<longrightarrow> idle (k + 1) p < 5"
      "(\<exists>u. x = Got u \<and> progress_percent u = 100) \<or> (x = TimeoutError \<and> idle (k + 1) pre = 4)"
      by blast
    have "\<forall>p. prefix p (TimeoutError # pre) \<longrightarrow> idle k p < 5"
      using h(4) 3(2) by (auto simp: prefix_Cons)
    with h False o(2) show ?thesis
      by (intro exI[of _ "TimeoutError # pre"] exI[of _ x]) simp
  qed
qed

lemma generator_waiting:
  "k < 5 \<Longrightarrow> event_generator k ws = (out, Waiting) \<Longrightarrow>
     forwarded out = received ws \<and> (\<forall>u \<in> set (received ws). progress_percent u \<noteq> 100) \<and>
     (\<forall>p. prefix p ws \<longrightarrow> idle k p < 5)"
proof (induction k ws arbitrary: out rule: event_generator.induct)
  case (1 k)
  then show ?case by simp
next
  case (2 k u ws)
  from 2(3) have ne: "progress_percent u \<noteq> 100" by (auto split: if_splits)
  with 2(3) obtain out' where o: "event_generator 0 ws = (out', Waiting)"
    "out = Progress_event u # out'"
    by (auto split: prod.splits)
  have "(0::nat) < 5" by simp
  from 2(1)[OF ne this o(1)] ne o(2) 2(2) show ?case by (auto simp: prefix_Cons)
next
  case (3 k ws)
  from 3(3) have ne: "\<not> max_keep_alives \<le> k + 1" by (auto split: if_splits)
  with 3(3) obtain out' where o: "event_generator (k + 1) ws = (out', Waiting)"
    "out = Ping_event # out'"
    by (auto split: prod.splits)
  from ne have k1: "k + 1 < 5" by (simp add: max_keep_alives_def)
  from 3(1)[OF ne k1 o(1)] o(2) 3(2) show ?case by (auto simp: prefix_Cons)
qed

lemma four_timeouts_leave_open:
  "event_generator 0 (replicate 4 TimeoutError) = (replicate 4 Ping_event, Waiting)"
  by (simp add: numeral_eq_Suc max_keep_alives_def)

lemma fifth_timeout_closes:
  "event_generator 0 (replicate 5 TimeoutError @ rest) =
     (replicate 4 Ping_event @ [Timeout_event], Closed rest)"
  by (simp add: numeral_eq_Suc max_keep_alives_def)

text \<open>
  Claim C3, as stated: the stream forwards a received event and closes whenever the event
  has status done (100 percent) or status error, reading nothing after an error event.
  The generator only tests \<^verbatim>\<open>update.get("progress_percent") == 100\<close>. Here it receives
  the error update of a failed run (step 0, so 0 percent) and then a further update: it
  forwards both and is still waiting.
\<close>

theorem stream_open_after_error_counterexample:
  "status \<lparr>step = 0, total_steps = 8, progress_percent = 0, agent_name = ''Error'',
           status = ''error'', message = ''Error: boom'', timestamp = ''t1''\<rparr> = ''error'' \<and>
   event_generator 0
     [Got \<lparr>step = 0, total_steps = 8, progress_percent = 0, agent_name = ''Error'',
           status = ''error'', message = ''Error: boom'', timestamp = ''t1''\<rparr>,
      Got \<lparr>step = 1, total_steps = 8, progress_percent = 12, agent_name = ''RAGAgent'',
           status = ''running'', message = ''again'', timestamp = ''t2''\<rparr>] =
     ([Progress_event \<lparr>step = 0, total_steps = 8, progress_percent = 0, agent_name = ''Error'',
           status = ''error'', message = ''Error: boom'', timestamp = ''t1''\<rparr>,
       Progress_event \<lparr>step = 1, total_steps = 8, progress_percent = 12, agent_name = ''RAGAgent'',
           status = ''running'', message = ''again'', timestamp = ''t2''\<rparr>],
      Waiting)"
  by simp

text \<open>
  Claim C3, amended: the stream forwards every update it receives, in order, and it closes
  right after forwarding an update exactly when that update has \<open>progress_percent = 100\<close>,
  whatever its status. An update with another percentage, such as the error update of a
  failed run, is forwarded and leaves the stream open with the idle count reset: the loop
  goes on reading, four timeouts in a row are answered with pings, and the fifth
  consecutive timeout closes the stream with the timeout event. Formally, for a run
  started with an idle count below five: if the stream is closed, the results awaited are
  \<open>pre @ [x]\<close>, no update in \<open>pre\<close> had 100 percent, the idle count stayed below five
  throughout \<open>pre\<close>, and \<open>x\<close> is either an update with 100 percent or the timeout that
  follows four consecutive ones; if the stream is still waiting, no update had 100
  percent and the idle count never reached five.
\<close>

theorem stream_closes_on_percent_100:
  assumes "event_generator k ws = (out, e)" and "k < 5"
  shows "(case e of
           Closed rest \<Rightarrow>
             (\<exists>pre x. ws = pre @ x # rest \<and> forwarded out = received (pre @ [x]) \<and>
                (\<forall>u \<in> set (received pre). progress_percent u \<noteq> 100) \<and>
                (\<forall>p. prefix p pre \<longrightarrow> idle k p < 5) \<and>
                ((\<exists>u. x = Got u \<and> progress_percent u = 100) \<or>
                 (x = TimeoutError \<and> idle k pre = 4)))
         | Waiting \<Rightarrow>
             forwarded out = received ws \<and>
             (\<forall>u \<in> set (received ws). progress_percent u \<noteq> 100) \<and>
             (\<forall>p. prefix p ws \<longrightarrow> idle k p < 5)) \<and>
         (\<forall>u rest. progress_percent u \<noteq> 100 \<longrightarrow>
            event_generator k (Got u # replicate 4 TimeoutError) =
              (Progress_event u # replicate 4 Ping_event, Waiting) \<and>
            event_generator k (Got u # replicate 5 TimeoutError @ rest) =
              (Progress_event u # replicate 4 Ping_event @ [Timeout_event], Closed rest))"
proof -
  have a: "case e of
           Closed rest \<Rightarrow>
             (\<exists>pre x. ws = pre @ x # rest \<and> forwarded out = received (pre @ [x]) \<and>
                (\<forall>u \<in> set (received pre). progress_percent u \<noteq> 100) \<and>
                (\<forall>p. prefix p pre \<longrightarrow> idle k p < 5) \<and>
                ((\<exists>u. x = Got u \<and> progress_percent u = 100) \<or>
                 (x = TimeoutError \<and> idle k pre = 4)))
         | Waiting \<Rightarrow>
             forwarded out = received ws \<and>
             (\<forall>u \<in> set (received ws). progress_percent u \<noteq> 100) \<and>
             (\<forall>p. prefix p ws \<longrightarrow> idle k p < 5)"
  proof (cases e)
    case (Closed rest)
    with assms generator_closed[of k ws out rest] show ?thesis by simp
  next
    case Waiting
    with assms generator_waiting[of k ws out] show ?thesis by simp
  qed
  have b: "event_generator k (Got u # replicate 4 TimeoutError) =
              (Progress_event u # replicate 4 Ping_event, Waiting) \<and>
            event_generator k (Got u # replicate 5 TimeoutError @ rest) =
              (Progress_event u # replicate 4 Ping_event @ [Timeout_event], Closed rest)"
    if "progress_percent u \<noteq> 100" for u rest
    using that four_timeouts_leave_open fifth_timeout_closes[of rest] by simp
  from a b show ?thesis by blast
qed

text \<open>
  Witness for C3: the error update of a failed run, five timeouts and a late update. The
  stream forwards the error update, sends four pings, and closes on the fifth timeout
  without awaiting the late update.
\<close>

theorem stream_closes_on_percent_100_witness:
  "event_generator 0
     [Got \<lparr>step = 0, total_steps = 8, progress_percent = 0, agent_name = ''Error'',
           status = ''error'', message = ''Error: boom'', timestamp = ''t1''\<rparr>,
      TimeoutError, TimeoutError, TimeoutError, TimeoutError, TimeoutError,
      Got \<lparr>step = 8, total_steps = 8, progress_percent = 100, agent_name = ''Complete'',
           status = ''done'', message = ''complete'', timestamp = ''t2''\<rparr>] =
     ([Progress_event \<lparr>step = 0, total_steps = 8, progress_percent = 0, agent_name = ''Error'',
           status = ''error'', message = ''Error: boom'', timestamp = ''t1''\<rparr>,
       Ping_event, Ping_event, Ping_event, Ping_event, Timeout_event],
      Closed [Got \<lparr>step = 8, total_steps = 8, progress_percent = 100, agent_name = ''Complete'',
           status = ''done'', message = ''complete'', timestamp = ''t2''\<rparr>]) \<and>
   (\<exists>pre x.
      [Got \<lparr>step = 0, total_steps = 8, progress_percent = 0, agent_name = ''Error'',
            status = ''error'', message = ''Error: boom'', timestamp = ''t1''\<rparr>,
       TimeoutError, TimeoutError, TimeoutError, TimeoutError, TimeoutError,
       Got \<lparr>step = 8, total_steps = 8, progress_percent = 100, agent_name = ''Complete'',
            status = ''done'', message = ''complete'', timestamp = ''t2''\<rparr>] =
        pre @ x #
        [Got \<lparr>step = 8, total_steps = 8, progress_percent = 100, agent_name = ''Complete'',
            status = ''done'', message = ''complete'', timestamp = ''t2''\<rparr>] \<and>
      ((\<exists>u. x = Got u \<and> progress_percent u = 100) \<or>
       (x = TimeoutError \<and> idle 0 pre = 4)))"
proof -
  have run: "event_generator 0
     [Got \<lparr>step = 0, total_steps = 8, progress_percent = 0, agent_name = ''Error'',
           status = ''error'', message = ''Error: boom'', timestamp = ''t1''\<rparr>,
      TimeoutError, TimeoutError, TimeoutError, TimeoutError, TimeoutError,
      Got \<lparr>step = 8, total_steps = 8, progress_percent = 100, agent_name = ''Complete'',
           status = ''done'', message = ''complete'', timestamp = ''t2''\<rparr>] =
     ([Progress_event \<lparr>step = 0, total_steps = 8, progress_percent = 0, agent_name = ''Error'',
           status = ''error'', message = ''Error: boom'', timestamp = ''t1''\<rparr>,
       Ping_event, Ping_event, Ping_event, Ping_event, Timeout_event],
      Closed [Got \<lparr>step = 8, total_steps = 8, progress_percent = 100, agent_name = ''Complete'',
           status = ''done'', message = ''complete'', timestamp = ''t2''\<rparr>])"
    by (simp add: max_keep_alives_def)
  have k: "(0::nat) < 5" by simp
  from stream_closes_on_percent_100[OF run k] have
    "\<exists>pre x.
      [Got \<lparr>step = 0, total_steps = 8, progress_percent = 0, agent_name = ''Error'',
            status = ''error'', message = ''Error: boom'', timestamp = ''t1''\<rparr>,
       TimeoutError, TimeoutError, TimeoutError, TimeoutError, TimeoutError,
       Got \<lparr>step = 8, total_steps = 8, progress_percent = 100, agent_name = ''Complete'',
            status = ''done'', message = ''complete'', timestamp = ''t2''\<rparr>] =
        pre @ x #
        [Got \<lparr>step = 8, total_steps = 8, progress_percent = 100, agent_name = ''Complete'',
            status = ''done'', message = ''complete'', timestamp = ''t2''\<rparr>] \<and>
      ((\<exists>u. x = Got u \<and> progress_percent u = 100) \<or>
       (x = TimeoutError \<and> idle 0 pre = 4))"
    unfolding stream_end.case by blast
  with run show ?thesis by blast
qed

section \<open>Subscriptions\<close>

lemma total_steps_of_run_8: "total_steps_of_run = 8"
  by (simp add: total_steps_of_run_def AGENT_STEPS_def)

lemma percent_values:
  "map (\<lambda>k. percent_of k 8) [0, 1, 2, 3, 4, 5, 6, 7, 8] =
     [Inr 0, Inr 12, Inr 25, Inr 37, Inr 50, Inr 62, Inr 75, Inr 87, Inr 100]"
  by code_simp

lemma percent_0: "percent_of 0 8 = Inr 0" and percent_1: "percent_of 1 8 = Inr 12"
  and percent_2: "percent_of 2 8 = Inr 25" and percent_3: "percent_of 3 8 = Inr 37"
  and percent_4: "percent_of 4 8 = Inr 50" and percent_5: "percent_of 5 8 = Inr 62"
  and percent_6: "percent_of 6 8 = Inr 75" and percent_7: "percent_of 7 8 = Inr 87"
  and percent_8: "percent_of 8 8 = Inr 100"
  using percent_values by simp_all

lemmas percents = percent_0 percent_1 percent_2 percent_3 percent_4 percent_5 percent_6
  percent_7 percent_8

lemma update_progress_subscribers:
  "update_progress tr sid stp tot agent st msg now = Inr tr1 \<Longrightarrow>
     subscribers tr1 = subscribers tr \<and> next_queue tr1 = next_queue tr"
  by (auto simp: update_progress_def bnd_def Let_def split: sum.splits option.splits)

lemma update_progress_queue:
  "update_progress tr sid stp tot agent st msg now = Inr tr1 \<Longrightarrow>
     \<exists>pct. percent_of stp tot = Inr pct \<and>
       queue_heap tr1 q =
         (if subscribers tr sid = Some q
          then queue_heap tr q @ [\<lparr>step = stp, total_steps = tot, progress_percent = pct,
                 agent_name = agent, status = st, message = msg, timestamp = now\<rparr>]
          else queue_heap tr q)"
  by (auto simp: update_progress_def bnd_def Let_def split: sum.splits option.splits)

lemma update_progress_fails:
  "update_progress tr sid stp tot agent st msg now = Inl e \<Longrightarrow> percent_of stp tot = Inl e"
  by (auto simp: update_progress_def bnd_def Let_def split: sum.splits option.splits)

lemma update_progress_returns:
  "percent_of stp tot = Inr pct \<Longrightarrow> \<exists>tr1. update_progress tr sid stp tot agent st msg now = Inr tr1"
  by (auto simp: update_progress_def bnd_def Let_def split: sum.splits option.splits)

lemma subscribe_facts:
  "subscribe tr sid = (q, tr1) \<Longrightarrow>
     q = next_queue tr \<and> next_queue tr1 = Suc q \<and>
     subscribers tr1 = (subscribers tr)(sid \<mapsto> q) \<and>
     queue_heap tr1 = (queue_heap tr)(q := [])"
  by (auto simp: subscribe_def Let_def)

lemma run_calls_subscribers:
  "subscribers (run_calls tr calls) = subscribers tr \<and>
   next_queue (run_calls tr calls) = next_queue tr"
proof (induction tr calls rule: run_calls.induct)
  case (1 tr)
  then show ?case by simp
next
  case (2 tr sid stp tot agent st msg now calls)
  show ?case
  proof (cases "update_progress tr sid stp tot agent st msg now")
    case (Inl e)
    with 2(1) show ?thesis by simp
  next
    case (Inr tr1)
    from 2(2)[OF Inr] update_progress_subscribers[OF Inr] Inr show ?thesis by simp
  qed
qed

lemma run_calls_other_queue:
  "\<forall>s. subscribers tr s \<noteq> Some q \<Longrightarrow> queue_heap (run_calls tr calls) q = queue_heap tr q"
proof (induction tr calls rule: run_calls.induct)
  case (1 tr)
  then show ?case by simp
next
  case (2 tr sid stp tot agent st msg now calls)
  show ?case
  proof (cases "update_progress tr sid stp tot agent st msg now")
    case (Inl e)
    with 2(1)[OF Inl 2(3)] show ?thesis by simp
  next
    case (Inr tr1)
    from update_progress_subscribers[OF Inr] 2(3)
    have n: "\<forall>s. subscribers tr1 s \<noteq> Some q" by simp
    from 2(3) have "subscribers tr sid \<noteq> Some q" by blast
    with update_progress_queue[OF Inr, of q] have "queue_heap tr1 q = queue_heap tr q" by auto
    with 2(2)[OF Inr n] Inr show ?thesis by simp
  qed
qed

lemma run_calls_own_queue:
  "\<forall>s. (subscribers tr s = Some q) = (s = sid) \<Longrightarrow>
     queue_heap (run_calls tr calls) q = queue_heap tr q @ updates_for sid calls"
proof (induction tr calls rule: run_calls.induct)
  case (1 tr)
  then show ?case by simp
next
  case (2 tr s stp tot agent st msg now calls)
  from 2(3) have own: "(subscribers tr s = Some q) = (s = sid)" by blast
  show ?case
  proof (cases "update_progress tr s stp tot agent st msg now")
    case (Inl e)
    from update_progress_fails[OF Inl] have "updates_for sid (Update_progress s stp tot agent st msg now # calls) = updates_for sid calls"
      by simp
    with 2(1)[OF Inl 2(3)] Inl show ?thesis by simp
  next
    case (Inr tr1)
    from update_progress_subscribers[OF Inr] 2(3)
    have n: "\<forall>s. (subscribers tr1 s = Some q) = (s = sid)" by simp
    from update_progress_queue[OF Inr, of q] obtain pct where
      p: "percent_of stp tot = Inr pct"
      and h: "queue_heap tr1 q =
         (if subscribers tr s = Some q
          then queue_heap tr q @ [\<lparr>step = stp, total_steps = tot, progress_percent = pct,
                 agent_name = agent, status = st, message = msg, timestamp = now\<rparr>]
          else queue_heap tr q)" by blast
    have "queue_heap tr1 q @ updates_for sid calls =
          queue_heap tr q @ updates_for sid (Update_progress s stp tot agent st msg now # calls)"
      using p h own by simp
    with 2(2)[OF Inr n] Inr show ?thesis by simp
  qed
qed

lemma fresh_ref_owner:
  assumes "\<And>s q. m s = Some q \<Longrightarrow> q < n" and "(n::nat) \<le> r"
  shows "\<forall>s. ((m(sid \<mapsto> r)) s = Some r) = (s = sid)"
proof (intro allI iffI)
  fix s assume a: "(m(sid \<mapsto> r)) s = Some r"
  show "s = sid"
  proof (rule ccontr)
    assume "s \<noteq> sid"
    with a have "m s = Some r" by simp
    from assms(1)[OF this] assms(2) show False by simp
  qed
next
  fix s assume "s = sid"
  then show "(m(sid \<mapsto> r)) s = Some r" by simp
qed

text \<open>
  Claim C9: subscribing to a session a second time supersedes the first subscription.
  Starting from a tracker whose subscribed queues are all allocated, subscribe to \<open>sid\<close>,
  let any updates be published (\<open>before\<close>, for any sessions), subscribe to \<open>sid\<close> again,
  and let further updates be published (\<open>after\<close>). Each new queue is empty when it is
  handed out, whatever was published earlier; the first queue received the updates of
  \<open>before\<close> for \<open>sid\<close> and receives nothing more; the second queue receives exactly the
  updates of \<open>after\<close> for \<open>sid\<close>, in order.
\<close>

theorem second_subscription_supersedes:
  assumes "refs_allocated tr0"
    and "subscribe tr0 sid = (q1, tr1)"
    and "subscribe (run_calls tr1 before) sid = (q2, tr2)"
  shows "queue_heap tr1 q1 = [] \<and> queue_heap tr2 q2 = [] \<and> q1 \<noteq> q2 \<and>
         queue_heap (run_calls tr1 before) q1 = updates_for sid before \<and>
         queue_heap (run_calls tr2 after) q1 = updates_for sid before \<and>
         queue_heap (run_calls tr2 after) q2 = updates_for sid after"
proof -
  let ?mid = "run_calls tr1 before"
  from subscribe_facts[OF assms(2)] have q1: "q1 = next_queue tr0"
    and nq1: "next_queue tr1 = Suc q1"
    and sb1: "subscribers tr1 = (subscribers tr0)(sid \<mapsto> q1)"
    and qh1: "queue_heap tr1 = (queue_heap tr0)(q1 := [])" by blast+
  have wf: "q < next_queue tr0" if "subscribers tr0 s = Some q" for s q
    using assms(1) that by (simp add: refs_allocated_def)
  have s1: "\<forall>s. (subscribers tr1 s = Some q1) = (s = sid)"
    unfolding sb1 by (rule fresh_ref_owner[of "subscribers tr0" "next_queue tr0"]) (auto simp: q1 dest: wf)
  have e1: "queue_heap tr1 q1 = []" unfolding qh1 by simp
  from run_calls_subscribers[of tr1 before]
  have sbm: "subscribers ?mid = subscribers tr1" and nqm: "next_queue ?mid = next_queue tr1"
    by blast+
  from subscribe_facts[OF assms(3)] have q2: "q2 = next_queue ?mid"
    and sb2: "subscribers tr2 = (subscribers ?mid)(sid \<mapsto> q2)"
    and qh2: "queue_heap tr2 = (queue_heap ?mid)(q2 := [])" by blast+
  have q2': "q2 = Suc q1" unfolding q2 nqm nq1 ..
  have b1: "queue_heap ?mid q1 = updates_for sid before"
    using run_calls_own_queue[OF s1, of before] e1 by simp
  have e2: "queue_heap tr2 q2 = []" unfolding qh2 by simp
  have subs2: "subscribers tr2 = (subscribers tr0)(sid \<mapsto> q2)"
    unfolding sb2 sbm sb1 by simp
  have s2: "\<forall>s. (subscribers tr2 s = Some q2) = (s = sid)"
    unfolding subs2 by (rule fresh_ref_owner[of "subscribers tr0" "next_queue tr0"]) (auto simp: q1 q2' dest: wf)
  have n1: "\<forall>s. subscribers tr2 s \<noteq> Some q1"
  proof (intro allI notI)
    fix s assume a: "subscribers tr2 s = Some q1"
    show False
    proof (cases "s = sid")
      case True
      with a subs2 q2' show False by simp
    next
      case False
      with a subs2 have "subscribers tr0 s = Some q1" by simp
      from wf[OF this] q1 show False by simp
    qed
  qed
  have a1: "queue_heap (run_calls tr2 after) q1 = queue_heap tr2 q1"
    using run_calls_other_queue[OF n1] .
  have "queue_heap tr2 q1 = queue_heap ?mid q1" unfolding qh2 using q2' by simp
  with a1 b1 have a1': "queue_heap (run_calls tr2 after) q1 = updates_for sid before" by simp
  have a2: "queue_heap (run_calls tr2 after) q2 = updates_for sid after"
    using run_calls_own_queue[OF s2, of after] e2 by simp
  from e1 e2 q2' b1 a1' a2 show ?thesis by simp
qed

text \<open>
  Witness for C9 on the freshly constructed tracker: the first subscription gets queue 0,
  the second queue 1, and an update published afterwards reaches queue 1 only.
\<close>

theorem second_subscription_supersedes_witness:
  "refs_allocated new_tracker \<and>
   subscribe new_tracker ''s1'' = (0, snd (subscribe new_tracker ''s1'')) \<and>
   subscribe (run_calls (snd (subscribe new_tracker ''s1'')) []) ''s1'' =
     (1, snd (subscribe (snd (subscribe new_tracker ''s1'')) ''s1'')) \<and>
   queue_heap
     (run_calls (snd (subscribe (snd (subscribe new_tracker ''s1'')) ''s1''))
        [Update_progress ''s1'' 1 8 ''RAGAgent'' ''running'' ''Retrieving'' ''t1'']) 0 = [] \<and>
   queue_heap
     (run_calls (snd (subscribe (snd (subscribe new_tracker ''s1'')) ''s1''))
        [Update_progress ''s1'' 1 8 ''RAGAgent'' ''running'' ''Retrieving'' ''t1'']) 1 =
     [\<lparr>step = 1, total_steps = 8, progress_percent = 12, agent_name = ''RAGAgent'',
       status = ''running'', message = ''Retrieving'', timestamp = ''t1''\<rparr>]"
proof -
  have wf: "refs_allocated new_tracker"
    by (simp add: refs_allocated_def new_tracker_def)
  have s1: "subscribe new_tracker ''s1'' = (0, snd (subscribe new_tracker ''s1''))"
    by (simp add: subscribe_def new_tracker_def)
  have s2: "subscribe (run_calls (snd (subscribe new_tracker ''s1'')) []) ''s1'' =
              (1, snd (subscribe (snd (subscribe new_tracker ''s1'')) ''s1''))"
    by (simp add: subscribe_def new_tracker_def)
  from second_subscription_supersedes[OF wf s1 s2,
      of "[Update_progress ''s1'' 1 8 ''RAGAgent'' ''running'' ''Retrieving'' ''t1'']"]
  show ?thesis using wf s1 s2 by (simp add: percent_1)
qed

section \<open>Progress updates of a pipeline run\<close>

lemma planned_try_body:
  "planned try_body =
     [(12, ''running''), (25, ''running''), (37, ''running''), (50, ''running''),
      (62, ''running''), (75, ''running''), (87, ''running''), (100, ''running''),
      (100, ''done'')]"
  by (simp add: try_body_def total_steps_of_run_8 percents)

lemma valid_try_body: "valid_publishes try_body"
  by (simp add: try_body_def total_steps_of_run_8 percents)

lemma emitted_prefix: "prefix (emitted env as) (planned as)"
  by (induction env as rule: emitted.induct) (auto split: sum.splits outcome.splits)

lemma emitted_no_failure: "first_failure env as = None \<Longrightarrow> emitted env as = planned as"
  by (induction env as rule: emitted.induct) (auto split: sum.splits outcome.splits)


lemma run_actions_queue:
  "subscribers tr sid = Some q \<Longrightarrow> run_actions env sid as (tr, k) = (r, tr', k') \<Longrightarrow>
     subscribers tr' sid = Some q \<and>
     (\<exists>evs. queue_heap tr' q = queue_heap tr q @ evs \<and> map summary evs = emitted env as)"
proof (induction as arbitrary: tr k)
  case Nil
  then show ?case by simp
next
  case (Cons a as)
  show ?case
  proof (cases a)
    case (Publish stp agent st msg)
    show ?thesis
    proof (cases "update_progress tr sid stp total_steps_of_run agent st msg (clock env k)")
      case (Inl e)
      from update_progress_fails[OF Inl] Cons.prems Publish Inl show ?thesis by auto
    next
      case (Inr tr1)
      from update_progress_subscribers[OF Inr] Cons.prems(1)
      have s1: "subscribers tr1 sid = Some q" by simp
      from update_progress_queue[OF Inr, of q] Cons.prems(1) obtain pct where
        p: "percent_of stp total_steps_of_run = Inr pct"
        and h: "queue_heap tr1 q = queue_heap tr q @
                  [\<lparr>step = stp, total_steps = total_steps_of_run, progress_percent = pct,
                    agent_name = agent, status = st, message = msg, timestamp = clock env k\<rparr>]"
        by auto
      from Cons.prems(2) Publish Inr
      have "run_actions env sid as (tr1, Suc k) = (r, tr', k')" by simp
      from Cons.IH[OF s1 this] obtain evs where
        "subscribers tr' sid = Some q" "queue_heap tr' q = queue_heap tr1 q @ evs"
        "map summary evs = emitted env as" by blast
      moreover have "summary \<lparr>step = stp, total_steps = total_steps_of_run,
              progress_percent = pct, agent_name = agent, status = st, message = msg,
              timestamp = clock env k\<rparr> = (pct, st)" by (simp add: summary_def)
      ultimately show ?thesis using h p Publish
        by (intro conjI exI[of _ "\<lparr>step = stp, total_steps = total_steps_of_run,
              progress_percent = pct, agent_name = agent, status = st, message = msg,
              timestamp = clock env k\<rparr> # evs"]) simp_all
    qed
  next
    case (Call f)
    show ?thesis
    proof (cases "f env")
      case (Returns u)
      with Cons.prems(2) Call have "run_actions env sid as (tr, k) = (r, tr', k')" by simp
      from Cons.IH[OF Cons.prems(1) this] Call Returns show ?thesis by simp
    next
      case (Raises m)
      with Cons.prems Call show ?thesis by auto
    qed
  qed
qed

lemma run_actions_result:
  "valid_publishes as \<Longrightarrow>
     fst (run_actions env sid as (tr, k)) = map_option Collaborator_error (first_failure env as)"
proof (induction as arbitrary: tr k)
  case Nil
  then show ?case by simp
next
  case (Cons a as)
  show ?case
  proof (cases a)
    case (Publish stp agent st msg)
    with Cons.prems obtain pct where p: "percent_of stp total_steps_of_run = Inr pct"
      and v: "valid_publishes as" by (auto split: sum.splits)
    from update_progress_returns[OF p] obtain tr1 where
      "update_progress tr sid stp total_steps_of_run agent st msg (clock env k) = Inr tr1" by blast
    with Cons.IH[OF v] Publish show ?thesis by simp
  next
    case (Call f)
    with Cons.prems have v: "valid_publishes as" by simp
    with Cons.IH[OF v] Call show ?thesis by (cases "f env") simp_all
  qed
qed

text \<open>The two ways a run ends, as seen by a subscriber.\<close>

lemma observed_success:
  assumes "first_failure env try_body = None"
  shows "run_response env sid tr = Plan \<and> map summary (observed env sid tr) = planned try_body"
proof -
  obtain q tr1 where sub: "subscribe tr sid = (q, tr1)" by (cases "subscribe tr sid")
  then have s1: "subscribers tr1 sid = Some q" and e1: "queue_heap tr1 q = []"
    by (auto simp: subscribe_def Let_def)
  obtain r tr2 k where run: "run_actions env sid try_body (tr1, 0) = (r, tr2, k)"
    by (cases "run_actions env sid try_body (tr1, 0)")
  from run_actions_result[OF valid_try_body, of env sid tr1 0] run assms have r: "r = None" by simp
  from run_actions_queue[OF s1 run] e1 obtain evs where
    "queue_heap tr2 q = evs" "map summary evs = emitted env try_body" by auto
  with emitted_no_failure[OF assms] run r sub show ?thesis
    by (simp add: run_response_def observed_def create_plan_with_progress_def)
qed

lemma observed_failure:
  assumes "first_failure env try_body = Some m"
  shows "run_response env sid tr = HTTPException 500 m \<and>
         (\<exists>evs k. observed env sid tr =
            evs @ [\<lparr>step = 0, total_steps = 8, progress_percent = 0, agent_name = ''Error'',
                    status = ''error'', message = error_prefix @ m, timestamp = clock env k\<rparr>] \<and>
            map summary evs = emitted env try_body)"
proof -
  obtain q tr1 where sub: "subscribe tr sid = (q, tr1)" by (cases "subscribe tr sid")
  then have s1: "subscribers tr1 sid = Some q" and e1: "queue_heap tr1 q = []"
    by (auto simp: subscribe_def Let_def)
  obtain r tr2 k where run: "run_actions env sid try_body (tr1, 0) = (r, tr2, k)"
    by (cases "run_actions env sid try_body (tr1, 0)")
  from run_actions_result[OF valid_try_body, of env sid tr1 0] run assms
  have r: "r = Some (Collaborator_error m)" by simp
  from run_actions_queue[OF s1 run] e1 obtain evs where
    s2: "subscribers tr2 sid = Some q" and
    evs: "queue_heap tr2 q = evs" "map summary evs = emitted env try_body" by auto
  from update_progress_returns[OF percent_0] obtain tr3 where
    up: "update_progress tr2 sid 0 8 ''Error'' ''error'' (error_prefix @ m) (clock env k) = Inr tr3"
    by blast
  from update_progress_queue[OF up, of q] s2 evs(1) percent_0
  have "queue_heap tr3 q =
          evs @ [\<lparr>step = 0, total_steps = 8, progress_percent = 0, agent_name = ''Error'',
                  status = ''error'', message = error_prefix @ m, timestamp = clock env k\<rparr>]"
    by auto
  with evs(2) run r sub up show ?thesis
    by (auto simp: run_response_def observed_def create_plan_with_progress_def
          total_steps_of_run_8 str_of_def)
qed

lemma percent_of_summary: "map progress_percent evs = map fst (map summary evs)"
  by (simp add: summary_def comp_def)

lemma status_of_summary: "map status evs = map snd (map summary evs)"
  by (simp add: summary_def comp_def)

lemma sorted_prefix_of: "prefix xs ys \<Longrightarrow> sorted ys \<Longrightarrow> sorted (xs :: int list)"
  by (auto simp: prefix_def sorted_append)

lemma emitted_percents:
  "prefix (map fst (emitted env try_body)) [12, 25, 37, 50, 62, 75, 87, 100, 100]"
proof -
  have "prefix (map fst (emitted env try_body)) (map fst (planned try_body))"
    using emitted_prefix by (rule map_mono_prefix)
  then show ?thesis by (simp add: planned_try_body)
qed

lemma emitted_statuses:
  "set (map snd (emitted env try_body)) \<subseteq> {''running'', ''done''}"
proof -
  have "prefix (map snd (emitted env try_body)) (map snd (planned try_body))"
    using emitted_prefix by (rule map_mono_prefix)
  from set_mono_prefix[OF this] show ?thesis by (auto simp: planned_try_body)
qed

lemma create_user_session_all_return:
  "create_user_session (all_return\<lparr>augment_profile_with_insights := a\<rparr>) = Returns ()"
  "create_user_session (all_return\<lparr>generate_scenarios := a\<rparr>) = Returns ()"
  "create_user_session (all_return\<lparr>save_plan := a\<rparr>) = Returns ()"
  "create_user_session all_return = Returns ()"
  by (simp_all add: create_user_session_def all_return_def)

lemma first_failure_all_return: "first_failure all_return try_body = None"
  by (simp add: try_body_def create_user_session_all_return) (simp add: all_return_def)

lemma first_failure_rag_fails: "first_failure rag_fails try_body = Some ''boom''"
  unfolding rag_fails_def
  by (simp add: try_body_def create_user_session_all_return) (simp add: all_return_def)

lemma first_failure_planner_fails: "first_failure planner_fails try_body = Some ''quota exceeded''"
  unfolding planner_fails_def
  by (simp add: try_body_def create_user_session_all_return) (simp add: all_return_def)

text \<open>
  Claim C1, as stated: the percentages a subscriber observes are non-decreasing, also on a
  failing run. Here the first agent raises: the subscriber sees 12 percent and then the
  error update with 0 percent.
\<close>

theorem percent_drops_on_failure_counterexample:
  "map progress_percent (observed rag_fails ''s1'' new_tracker) = [12, 0] \<and>
   \<not> sorted (map progress_percent (observed rag_fails ''s1'' new_tracker))"
  by code_simp

text \<open>
  Claim C1, amended: every percentage observed lies in \<open>[0, 100]\<close>. On a run in which no
  collaborator raises the percentages are non-decreasing. On a failing run the percentages
  observed before the error update are non-decreasing, and the error update, which comes
  last, carries 0.
\<close>

theorem percent_bounded_monotone_until_error:
  "(\<forall>u \<in> set (observed env sid tr). 0 \<le> progress_percent u \<and> progress_percent u \<le> 100) \<and>
   (first_failure env try_body = None \<longrightarrow>
      sorted (map progress_percent (observed env sid tr))) \<and>
   (first_failure env try_body \<noteq> None \<longrightarrow>
      sorted (map progress_percent (butlast (observed env sid tr))) \<and>
      progress_percent (last (observed env sid tr)) = 0)"
proof (cases "first_failure env try_body")
  case None
  from observed_success[OF None, of sid tr]
  have eq: "map progress_percent (observed env sid tr) = [12, 25, 37, 50, 62, 75, 87, 100, 100]"
    by (simp add: percent_of_summary planned_try_body)
  have "\<forall>p \<in> set [12, 25, 37, 50, 62, 75, 87, 100, 100]. 0 \<le> p \<and> p \<le> (100::int)"
    by simp
  then have "\<forall>p \<in> set (map progress_percent (observed env sid tr)). 0 \<le> p \<and> p \<le> 100"
    by (simp only: eq)
  then have b: "\<forall>u \<in> set (observed env sid tr). 0 \<le> progress_percent u \<and> progress_percent u \<le> 100"
    by simp
  have "sorted (map progress_percent (observed env sid tr))" unfolding eq by simp
  with b None show ?thesis by simp
next
  case (Some m)
  from observed_failure[OF Some, of sid tr] obtain evs k where
    obs: "observed env sid tr =
            evs @ [\<lparr>step = 0, total_steps = 8, progress_percent = 0, agent_name = ''Error'',
                    status = ''error'', message = error_prefix @ m, timestamp = clock env k\<rparr>]"
    and evs: "map summary evs = emitted env try_body" by blast
  from emitted_percents[of env] evs
  have pre: "prefix (map progress_percent evs) [12, 25, 37, 50, 62, 75, 87, 100, 100]"
    by (simp add: percent_of_summary)
  from sorted_prefix_of[OF pre] have s: "sorted (map progress_percent evs)" by simp
  from set_mono_prefix[OF pre]
  have "\<forall>p \<in> set (map progress_percent evs). 0 \<le> p \<and> p \<le> 100" by auto
  then have b: "\<forall>u \<in> set evs. 0 \<le> progress_percent u \<and> progress_percent u \<le> 100" by simp
  from obs s b Some show ?thesis by (simp add: butlast_append)
qed

text \<open>Witness for C1: a run in which all calls return, and one whose first agent raises.\<close>

theorem percent_bounded_monotone_until_error_witness:
  "first_failure all_return try_body = None \<and>
   sorted (map progress_percent (observed all_return ''s1'' new_tracker)) \<and>
   first_failure rag_fails try_body \<noteq> None \<and>
   sorted (map progress_percent (butlast (observed rag_fails ''s1'' new_tracker))) \<and>
   progress_percent (last (observed rag_fails ''s1'' new_tracker)) = 0 \<and>
   list_all (\<lambda>u. 0 \<le> progress_percent u \<and> progress_percent u \<le> 100)
     (observed rag_fails ''s1'' new_tracker)"
  using percent_bounded_monotone_until_error[of all_return "''s1''" new_tracker]
    percent_bounded_monotone_until_error[of rag_fails "''s1''" new_tracker]
    first_failure_all_return first_failure_rag_fails
  by (simp add: list_all_iff)

text \<open>
  Claim C2, as stated: the error update keeps the last published percentage. Here the
  planner (step 5) raises after 62 percent has been published: the error update has 0.
\<close>

theorem error_percent_reset_counterexample:
  "map progress_percent (observed planner_fails ''s1'' new_tracker) = [12, 25, 37, 50, 62, 0] \<and>
   map status (observed planner_fails ''s1'' new_tracker) =
     [''running'', ''running'', ''running'', ''running'', ''running'', ''error'']"
  by code_simp

text \<open>
  Claim C2, amended: when a collaborator raises an exception with message \<open>m\<close>, the
  endpoint raises \<^verbatim>\<open>HTTPException(500, m)\<close> and exactly one update with status error is
  published; it is the last one, its message is the error prefix followed by \<open>m\<close>, and it
  is published with step 0, so its \<open>progress_percent\<close> is 0.
\<close>

theorem failure_publishes_one_error_update:
  assumes "first_failure env try_body = Some m"
  shows "run_response env sid tr = HTTPException 500 m \<and>
         (\<exists>evs err. observed env sid tr = evs @ [err] \<and>
            (\<forall>u \<in> set evs. status u \<noteq> ''error'') \<and>
            status err = ''error'' \<and> message err = error_prefix @ m \<and>
            step err = 0 \<and> progress_percent err = 0)"
proof -
  from observed_failure[OF assms, of sid tr] obtain evs k where
    r: "run_response env sid tr = HTTPException 500 m" and
    obs: "observed env sid tr =
            evs @ [\<lparr>step = 0, total_steps = 8, progress_percent = 0, agent_name = ''Error'',
                    status = ''error'', message = error_prefix @ m, timestamp = clock env k\<rparr>]"
    and evs: "map summary evs = emitted env try_body" by blast
  from emitted_statuses[of env] evs
  have "set (map status evs) \<subseteq> {''running'', ''done''}" by (simp add: status_of_summary)
  then have "\<forall>u \<in> set evs. status u \<noteq> ''error''" by auto
  with r obs show ?thesis by simp
qed

text \<open>Witness for C2: the planner raises.\<close>

theorem failure_publishes_one_error_update_witness:
  "first_failure planner_fails try_body = Some ''quota exceeded'' \<and>
   run_response planner_fails ''s1'' new_tracker = HTTPException 500 ''quota exceeded'' \<and>
   (\<exists>evs err. observed planner_fails ''s1'' new_tracker = evs @ [err] \<and>
      (\<forall>u \<in> set evs. status u \<noteq> ''error'') \<and>
      status err = ''error'' \<and> message err = error_prefix @ ''quota exceeded'' \<and>
      step err = 0 \<and> progress_percent err = 0)"
  using failure_publishes_one_error_update[OF first_failure_planner_fails, of "''s1''" new_tracker]
    first_failure_planner_fails
  by simp

text \<open>
  Claim C10: if every call up to the critic returns, so that the done update with 100
  percent is published, and saving the plan to the SQLite store or to the vector store
  then raises with message \<open>m\<close>, the handler publishes a further update with status error
  and 0 percent for the same session: the subscriber sees an error update right after the
  done update.
\<close>

theorem error_update_follows_done:
  assumes "create_user_session env = Returns ()"
    and "store_business_profile env = Returns ()"
    and "augment_profile_with_insights env = Returns ()"
    and "generate_persona env = Returns ()"
    and "recommend_miles env = Returns ()"
    and "analyze_competitors env = Returns ()"
    and "generate_scenarios env = Returns ()"
    and "generate_assets env = Returns ()"
    and "predict_performance env = Returns ()"
    and "analytics env = Returns ()"
    and "evaluate_plan env = Returns ()"
    and "save_plan env = Raises m \<or> (save_plan env = Returns () \<and> store_plan env = Raises m)"
  shows "run_response env sid tr = HTTPException 500 m \<and>
         (\<exists>evs d e. observed env sid tr = evs @ [d, e] \<and>
            status d = ''done'' \<and> progress_percent d = 100 \<and>
            status e = ''error'' \<and> progress_percent e = 0 \<and>
            message e = error_prefix @ m)"
proof -
  from assms have ff: "first_failure env try_body = Some m"
    by (auto simp: try_body_def)
  from assms have em: "emitted env try_body = planned try_body"
    by (auto simp: try_body_def total_steps_of_run_8 percents)
  from observed_failure[OF ff, of sid tr] obtain evs k where
    r: "run_response env sid tr = HTTPException 500 m" and
    obs: "observed env sid tr =
            evs @ [\<lparr>step = 0, total_steps = 8, progress_percent = 0, agent_name = ''Error'',
                    status = ''error'', message = error_prefix @ m, timestamp = clock env k\<rparr>]"
    and evs: "map summary evs = emitted env try_body" by blast
  from evs em have ms: "map summary evs =
     [(12, ''running''), (25, ''running''), (37, ''running''), (50, ''running''),
      (62, ''running''), (75, ''running''), (87, ''running''), (100, ''running''),
      (100, ''done'')]" by (simp add: planned_try_body)
  then have ne: "evs \<noteq> []" by auto
  from ms have "summary (last evs) = (100, ''done'')"
    using last_map[OF ne, of summary] by simp
  then have d: "status (last evs) = ''done''" "progress_percent (last evs) = 100"
    by (simp_all add: summary_def)
  from ne have "evs = butlast evs @ [last evs]" by simp
  with obs have "observed env sid tr = butlast evs @ [last evs,
            \<lparr>step = 0, total_steps = 8, progress_percent = 0, agent_name = ''Error'',
              status = ''error'', message = error_prefix @ m, timestamp = clock env k\<rparr>]"
    by (metis append.assoc append_Cons append_Nil)
  then have "\<exists>evs d e. observed env sid tr = evs @ [d, e] \<and>
            status d = ''done'' \<and> progress_percent d = 100 \<and>
            status e = ''error'' \<and> progress_percent e = 0 \<and>
            message e = error_prefix @ m"
    using d
    by (intro exI[of _ "butlast evs"] exI[of _ "last evs"]
          exI[of _ "\<lparr>step = 0, total_steps = 8, progress_percent = 0, agent_name = ''Error'',
              status = ''error'', message = error_prefix @ m, timestamp = clock env k\<rparr>"]) simp
  with r show ?thesis by blast
qed

text \<open>Witness for C10: \<^verbatim>\<open>save_plan\<close> raises.\<close>

theorem error_update_follows_done_witness:
  "run_response save_fails ''s1'' new_tracker = HTTPException 500 ''database is locked'' \<and>
   (\<exists>evs d e. observed save_fails ''s1'' new_tracker = evs @ [d, e] \<and>
      status d = ''done'' \<and> progress_percent d = 100 \<and>
      status e = ''error'' \<and> progress_percent e = 0 \<and>
      message e = error_prefix @ ''database is locked'')"
proof -
  have h: "create_user_session save_fails = Returns ()"
    "store_business_profile save_fails = Returns ()"
    "augment_profile_with_insights save_fails = Returns ()"
    "generate_persona save_fails = Returns ()"
    "recommend_miles save_fails = Returns ()"
    "analyze_competitors save_fails = Returns ()"
    "generate_scenarios save_fails = Returns ()"
    "generate_assets save_fails = Returns ()"
    "predict_performance save_fails = Returns ()"
    "analytics save_fails = Returns ()"
    "evaluate_plan save_fails = Returns ()"
    "save_plan save_fails = Raises ''database is locked'' \<or>
       (save_plan save_fails = Returns () \<and> store_plan save_fails = Raises ''database is locked'')"
    by (simp_all add: save_fails_def create_user_session_def all_return_def)
  show ?thesis
    by (rule error_update_follows_done[OF h])
qed

section \<open>Reach analytics and budget scaling\<close>

lemma bnd_Inr [simp]: "bnd (Inr v) f = f v"
  by (simp add: bnd_def)

lemma bnd_Inl [simp]: "bnd (Inl e) f = Inl e"
  by (simp add: bnd_def)

lemma round_half_even_bounds:
  "of_int (round_half_even y) \<le> y + 1 / 2 \<and> y - 1 / 2 \<le> of_int (round_half_even y)"
  by (auto simp: round_half_even_def Let_def; linarith)

lemma binade_12: "4096 \<le> x \<Longrightarrow> x < 8192 \<Longrightarrow> binade x = 12"
proof -
  assume a: "4096 \<le> x" "x < 8192"
  then have f: "4096 \<le> \<lfloor>x\<rfloor>" "\<lfloor>x\<rfloor> < 8192" by linarith+
  have "bitlen \<lfloor>x\<rfloor> \<le> 13"
    using f by (subst bitlen_le_iff_power) simp_all
  moreover have "13 \<le> bitlen \<lfloor>x\<rfloor>"
    using f by (subst bitlen_ge_iff_power) simp_all
  ultimately have "bitlen \<lfloor>x\<rfloor> = 13" by simp
  with a show ?thesis by (simp add: binade_def abs_of_nonneg)
qed

lemma fl_between_6155_6156:
  assumes "6155 + 1 / 2 \<le> x" and "x \<le> 6156 - 1 / 4"
  shows "\<exists>y. fl x = Fin y \<and> 6155 \<le> y \<and> y < 6156"
proof -
  have b: "binade x = 12" using assms by (intro binade_12) simp_all
  define n where "n = round_half_even (x / pow2 (- 40))"
  have p: "pow2 (- 40) = 1 / 2 ^ 40" by (simp add: pow2_def)
  from round_half_even_bounds[of "x / pow2 (- 40)"]
  have nb: "of_int n \<le> x * 2 ^ 40 + 1 / 2" "x * 2 ^ 40 - 1 / 2 \<le> of_int n"
    by (simp_all add: n_def p)
  have fl: "fl x = Fin (of_int n * pow2 (- 40))"
    using assms b by (simp add: fl_def n_def Let_def)
  have "6155 \<le> of_int n * pow2 (- 40)" using nb assms by (simp add: p field_simps)
  moreover have "of_int n * pow2 (- 40) < 6156" using nb assms by (simp add: p field_simps)
  ultimately show ?thesis using fl by blast
qed

lemma two_powr_1_3:
  "2462288826 / 1000000000 \<le> (2::real) powr (13 / 10) \<and>
   (2::real) powr (13 / 10) \<le> 2462288827 / 1000000000"
proof -
  define x where "x = (2::real) powr (13 / 10)"
  have pos: "0 < x" by (simp add: x_def)
  have "x ^ 10 = x powr (real 10)" using powr_realpow[OF pos, of 10] by simp
  also have "\<dots> = 2 powr (13 / 10 * real 10)" unfolding x_def powr_powr ..
  also have "\<dots> = 2 powr 13" by simp
  also have "\<dots> = 8192" by simp
  finally have p: "x ^ Suc 9 = 8192" by simp
  have l: "(2462288826 / 1000000000 :: real) ^ Suc 9 \<le> x ^ Suc 9"
    unfolding p by (simp add: power_divide)
  have u: "x ^ Suc 9 \<le> (2462288827 / 1000000000 :: real) ^ Suc 9"
    unfolding p by (simp add: power_divide)
  from pos have nn: "0 \<le> x" by simp
  have nn2: "0 \<le> (2462288827 / 1000000000 :: real)" by simp
  from power_le_imp_le_base[OF l nn] power_le_imp_le_base[OF u nn2] show ?thesis
    unfolding x_def by simp
qed

lemma round_2500_two_powr: "round (2500 * (2::real) powr (13 / 10)) = 6156"
proof -
  from two_powr_1_3 have "6156 - 1 / 2 \<le> 2500 * (2::real) powr (13 / 10)"
    "2500 * (2::real) powr (13 / 10) < 6156 + 1 / 2" by linarith+
  then show ?thesis unfolding round_def by linarith
qed

lemma budget_scaling_sample:
  "calculate_budget_scaling sample_libm_pow 2500 15000 20000 (Fin 2) =
     Inr \<lparr>current_budget = 2500, recommended_budget = 6155, budget_increase = 3655,
          budget_increase_percent = Fin (2571977599693619 / 17592186044416),
          current_reach_range = ''15,000-20,000'', target_reach_range = ''30,000-40,000'',
          current_cost_per_reach = Fin (1261007895663739 / 9007199254740992),
          new_cost_per_reach = Fin (3242591731706757 / 18014398509481984),
          efficiency_change_percent = Fin (3251035981008077 / 140737488355328)\<rparr>"
  by code_simp

lemma fl_literal_146_2: "fl (1462 / 10) = Fin (2571977599693619 / 17592186044416)"
  by code_simp

lemma fl_literal_6_7: "fl (67 / 10) = Fin (7543529375845581 / 1125899906842624)"
  by code_simp

lemma fl_literal_1_3: "fl (13 / 10) = Fin literal_1_3"
  by code_simp


lemma float_of_int_2500: "float_of_int 2500 = Inr (Fin 2500)"
  by code_simp

lemma same_recommended:
  assumes "libm1 t literal_1_3 = Fin b1" and "libm0 t literal_1_3 = Fin b0" and "0 \<le> t"
    and "bnd (int_times_float cb (Fin b1)) py_int = bnd (int_times_float cb (Fin b0)) py_int"
  shows "calculate_budget_scaling libm1 cb rmin rmax (Fin t) =
         calculate_budget_scaling libm0 cb rmin rmax (Fin t)"
  using assms by (simp add: calculate_budget_scaling_def math_pow_def)

lemma recommended_6155:
  assumes "2462288826 / 10 ^ 9 \<le> bm" and "bm \<le> 2462288827 / 10 ^ 9"
  shows "bnd (int_times_float 2500 (Fin bm)) py_int = Inr 6155"
proof -
  from assms have "6155 + 1 / 2 \<le> 2500 * bm" "2500 * bm \<le> 6156 - 1 / 4" by simp_all
  from fl_between_6155_6156[OF this] obtain y where
    y: "fl (2500 * bm) = Fin y" "6155 \<le> y" "y < 6156" by blast
  then have "\<lfloor>y\<rfloor> = 6155" by linarith
  with y show ?thesis by (simp add: int_times_float_def float_of_int_2500 py_int_def)
qed

text \<open>
  Claim C5: \<^verbatim>\<open>calculate_budget_scaling(2500, 15000, 20000, 2.0)\<close> returns a result with
  \<^verbatim>\<open>target_reach_range\<close> \<open>30,000-40,000\<close>, \<^verbatim>\<open>recommended_budget\<close> 6155 and
  \<^verbatim>\<open>budget_increase_percent\<close> 146.2 (the double that the literal \<^verbatim>\<open>146.2\<close> denotes).
  This holds for every C library whose \<^verbatim>\<open>pow(2.0, 1.3)\<close> lies within \<open>10\<^sup>-\<^sup>9\<close> of the
  real power, which \<open>two_powr_1_3\<close> locates between 2.462288826 and 2.462288827.
\<close>

theorem budget_scaling_example:
  assumes "libm_pow 2 literal_1_3 = Fin bm"
    and "2462288826 / 10 ^ 9 \<le> bm" and "bm \<le> 2462288827 / 10 ^ 9"
  shows "\<exists>r. calculate_budget_scaling libm_pow 2500 15000 20000 (Fin 2) = Inr r \<and>
           target_reach_range r = ''30,000-40,000'' \<and> recommended_budget r = 6155 \<and>
           budget_increase_percent r = fl (1462 / 10)"
proof -
  have s: "sample_libm_pow 2 literal_1_3 = Fin (5544581521179433 / 2251799813685248)"
    by (simp add: sample_libm_pow_def)
  have "bnd (int_times_float 2500 (Fin bm)) py_int =
        bnd (int_times_float 2500 (Fin (5544581521179433 / 2251799813685248))) py_int"
    using recommended_6155[OF assms(2,3)] recommended_6155[of "5544581521179433 / 2251799813685248"]
    by simp
  from same_recommended[of libm_pow 2 bm sample_libm_pow
      "5544581521179433 / 2251799813685248" 2500 15000 20000, OF assms(1) s _ this]
  have eq: "calculate_budget_scaling libm_pow 2500 15000 20000 (Fin 2) =
            calculate_budget_scaling sample_libm_pow 2500 15000 20000 (Fin 2)" by simp
  let ?r = "\<lparr>current_budget = 2500, recommended_budget = 6155, budget_increase = 3655,
          budget_increase_percent = Fin (2571977599693619 / 17592186044416),
          current_reach_range = ''15,000-20,000'', target_reach_range = ''30,000-40,000'',
          current_cost_per_reach = Fin (1261007895663739 / 9007199254740992),
          new_cost_per_reach = Fin (3242591731706757 / 18014398509481984),
          efficiency_change_percent = Fin (3251035981008077 / 140737488355328)\<rparr>"
  have r: "calculate_budget_scaling libm_pow 2500 15000 20000 (Fin 2) = Inr ?r"
    by (simp only: eq budget_scaling_sample)
  have f: "target_reach_range ?r = ''30,000-40,000''" "recommended_budget ?r = 6155"
    "budget_increase_percent ?r = fl (1462 / 10)"
    by (simp_all only: budget_scaling.simps fl_literal_146_2)
  from r f show ?thesis by blast
qed

text \<open>Witness for C5: the C library returns the double nearest to the real power.\<close>

theorem budget_scaling_example_witness:
  "sample_libm_pow 2 literal_1_3 = Fin (5544581521179433 / 2251799813685248) \<and>
   (\<exists>r. calculate_budget_scaling sample_libm_pow 2500 15000 20000 (Fin 2) = Inr r \<and>
           target_reach_range r = ''30,000-40,000'' \<and> recommended_budget r = 6155 \<and>
           budget_increase_percent r = fl (1462 / 10))"
proof -
  have s: "sample_libm_pow 2 literal_1_3 = Fin (5544581521179433 / 2251799813685248)"
    by (simp add: sample_libm_pow_def)
  from budget_scaling_example[of sample_libm_pow "5544581521179433 / 2251799813685248", OF s]
    s show ?thesis by simp
qed

text \<open>
  Claim C4, as stated: \<^verbatim>\<open>recommended_budget\<close> is the product rounded to the nearest
  integer. For a budget of 2500 and a multiplier of 2.0 the code returns 6155, while
  \<open>2500 \<times> 2\<^sup>1\<^sup>.\<^sup>3\<close> is about 6155.72 and rounds to 6156.
\<close>

theorem truncation_counterexample:
  "map_sum id recommended_budget
     (calculate_budget_scaling sample_libm_pow 2500 15000 20000 (Fin 2)) = Inr 6155 \<and>
   round (2500 * (2::real) powr (13 / 10)) = 6156"
  by (simp add: budget_scaling_sample round_2500_two_powr)

text \<open>
  Claim C6: \<^verbatim>\<open>calculate_reach_percentage("15,000-20,000", "San Francisco", True)\<close>
  returns \<^verbatim>\<open>target_population\<close> 300000, which is the table entry 1200000 for San Francisco
  times 0.25, \<^verbatim>\<open>percentage_min\<close> 5.0 and \<^verbatim>\<open>percentage_max\<close> 6.7 (the double that the
  literal \<^verbatim>\<open>6.7\<close> denotes).
\<close>

theorem reach_percentage_example:
  "calculate_reach_percentage (codepoints ''15,000-20,000'') (codepoints ''San Francisco'') True =
     Inr (Reach 15000 20000 300000 (Fin 5) (fl (67 / 10))) \<and>
   match_location population_estimates (lower (codepoints ''San Francisco'')) = Some 1200000"
  by code_simp

lemma findall_comma_token: "findall (codepoints ''Unknown, varies'') = [[44]]"
  by code_simp

lemma int_of_empty: "int_of_string (remove_commas [44]) = Inl ValueError"
  by (simp add: int_of_string_def remove_commas_def)

text \<open>
  Claim C8: a reach text without digits gives the degenerate result and never raises.
  The code fails it: the pattern \<^verbatim>\<open>[\d,]+\<close> also matches a run of commas, so for a
  text with a comma and no digit \<^verbatim>\<open>numbers\<close> is not empty, the guard
  \<^verbatim>\<open>if not numbers\<close> is passed, and \<^verbatim>\<open>int('')\<close> raises \<^verbatim>\<open>ValueError\<close>, whatever
  the location and the locality flag.
\<close>

theorem comma_token_raises:
  "calculate_reach_percentage (codepoints ''Unknown, varies'') location is_local = Inl ValueError"
  by (simp add: calculate_reach_percentage_def findall_comma_token int_of_empty)

text \<open>A reach text without digits and without commas does give the degenerate result.\<close>

lemma scan_no_token: "\<forall>c \<in> set s. \<not> in_class c \<Longrightarrow> scan [] s = []"
  by (induction s) simp_all

lemma no_token_unknown:
  "\<forall>c \<in> set reach_string. \<not> in_class c \<Longrightarrow>
     calculate_reach_percentage reach_string location is_local =
       Inr (Unknown_reach 0 0 ''Unknown'' ''Unknown'')"
  by (simp add: calculate_reach_percentage_def findall_def scan_no_token)

subsection \<open>Rounding keeps signs and stays finite\<close>

lemma pow2_pos: "0 < pow2 e"
  by (simp add: pow2_def)

lemma round_half_even_nonneg: "0 \<le> y \<Longrightarrow> 0 \<le> round_half_even y"
  by (auto simp: round_half_even_def Let_def)

lemma fl_nonneg:
  assumes "0 \<le> x" and "fl x = Fin y"
  shows "0 \<le> y"
proof (cases "x = 0")
  case True
  with assms show ?thesis by (simp add: fl_def)
next
  case False
  define e where "e = max (binade x) (- 1022) - 52"
  define n where "n = round_half_even (x / pow2 e)"
  from assms(2) False have y: "y = of_int n * pow2 e"
    by (auto simp: fl_def Let_def e_def n_def split: if_splits)
  from assms(1) pow2_pos[of e] have "0 \<le> x / pow2 e" by simp
  from round_half_even_nonneg[OF this] have "0 \<le> n" by (simp add: n_def)
  with pow2_pos[of e] show ?thesis unfolding y by simp
qed

lemma binade_le_1023:
  assumes "\<bar>x\<bar> \<le> 2 ^ 1023"
  shows "binade x \<le> 1023"
proof (cases "1 \<le> \<bar>x\<bar>")
  case True
  from assms have "\<lfloor>\<bar>x\<bar>\<rfloor> \<le> \<lfloor>(2::rat) ^ 1023\<rfloor>" by (rule floor_mono)
  also have "\<lfloor>(2::rat) ^ 1023\<rfloor> = 2 ^ 1023" by (simp add: floor_power)
  finally have "\<lfloor>\<bar>x\<bar>\<rfloor> < 2 ^ nat 1024" by simp
  then have "bitlen \<lfloor>\<bar>x\<bar>\<rfloor> \<le> 1024" by (subst bitlen_le_iff_power) simp
  with True show ?thesis by (simp add: binade_def)
next
  case False
  have "0 \<le> bitlen (\<lceil>1 / \<bar>x\<bar>\<rceil> - 1)" by (rule bitlen_nonneg)
  with False show ?thesis by (simp add: binade_def)
qed

lemma int_le_half: "(of_int n :: rat) \<le> of_int k + 1 / 2 \<Longrightarrow> n \<le> k"
proof -
  assume "(of_int n :: rat) \<le> of_int k + 1 / 2"
  then have "(of_int n :: rat) < of_int (k + 1)" by simp
  then have "n < k + 1" by (simp only: of_int_less_iff)
  then show ?thesis by simp
qed

lemma int_ge_half: "(of_int k :: rat) - 1 / 2 \<le> of_int n \<Longrightarrow> k \<le> n"
proof -
  assume "(of_int k :: rat) - 1 / 2 \<le> of_int n"
  then have "(of_int (k - 1) :: rat) < of_int n" by simp
  then have "k - 1 < n" by (simp only: of_int_less_iff)
  then show ?thesis by simp
qed

lemma fl_finite:
  assumes "\<bar>x\<bar> \<le> 2 ^ 1023"
  shows "\<exists>y. fl x = Fin y"
proof (cases "x = 0")
  case True
  then show ?thesis by (simp add: fl_def)
next
  case False
  define e where "e = max (binade x) (- 1022) - 52"
  define n where "n = round_half_even (x / pow2 e)"
  from binade_le_1023[OF assms] have e: "e \<le> 971" by (simp add: e_def)
  have "\<not> (e = 971 \<and> 2 ^ 53 \<le> \<bar>n\<bar>)"
  proof
    assume a: "e = 971 \<and> 2 ^ 53 \<le> \<bar>n\<bar>"
    then have p: "pow2 e = 2 ^ 971" by (simp add: pow2_def)
    have "\<bar>x / pow2 e\<bar> \<le> 2 ^ 52"
    proof -
      have "\<bar>x\<bar> \<le> 2 ^ 52 * (2 ^ 971 :: rat)" using assms by (simp add: power_add[symmetric])
      then show ?thesis unfolding p by (simp add: abs_divide pos_divide_le_eq)
    qed
    then have "x / pow2 e \<le> 2 ^ 52" "- (2 ^ 52) \<le> x / pow2 e"
      unfolding abs_le_iff by linarith+
    with round_half_even_bounds[of "x / pow2 e"]
    have "of_int n \<le> (2 ^ 52 + 1 / 2 :: rat)" "- (2 ^ 52) - 1 / 2 \<le> (of_int n :: rat)"
      by (simp_all add: n_def)
    then have "n \<le> 2 ^ 52" "- (2 ^ 52) \<le> n"
      using int_le_half[of n "2 ^ 52"] int_ge_half[of "- (2 ^ 52)" n] by simp_all
    with a show False by (simp add: abs_if split: if_splits)
  qed
  with e False show ?thesis by (simp add: fl_def Let_def e_def n_def)
qed

subsection \<open>Both reach bounds zero\<close>

lemma bnd_eq_Inr: "(bnd m f = Inr r) = (\<exists>v. m = Inr v \<and> f v = Inr r)"
  by (cases m) simp_all


lemma bnd_no_zero_division:
  "m \<noteq> Inl ZeroDivisionError \<Longrightarrow> (\<And>v. f v \<noteq> Inl ZeroDivisionError) \<Longrightarrow>
     bnd m f \<noteq> Inl ZeroDivisionError"
  by (cases m) simp_all


lemma float_of_int_no_zero_division: "float_of_int n \<noteq> Inl ZeroDivisionError"
  by (auto simp: float_of_int_def split: pyfloat.splits)

lemma py_int_no_zero_division: "py_int x \<noteq> Inl ZeroDivisionError"
  by (auto simp: py_int_def split: pyfloat.splits)


lemma int_times_float_no_zero_division:
  "bnd (int_times_float n x) py_int \<noteq> Inl ZeroDivisionError"
  unfolding int_times_float_def
  by (intro bnd_no_zero_division float_of_int_no_zero_division py_int_no_zero_division) simp

lemma fl_0: "fl 0 = Fin 0"
  by (simp add: fl_def)





lemma zero_avg_times:
  "py_int (fmul (Fin 0) tm) = (case tm of Fin t \<Rightarrow> Inr 0 | _ \<Rightarrow> Inl ValueError)"
  by (cases tm) (simp_all add: fl_0 py_int_def signed_inf_def fsign_def)



lemma trunc_abs:
  "\<bar>of_int (if 0 \<le> p then \<lfloor>p\<rfloor> else \<lceil>p\<rceil>) :: rat\<bar> \<le> \<bar>p\<bar>"
proof (cases "0 \<le> p")
  case True
  then have "0 \<le> \<lfloor>p\<rfloor>" by simp
  moreover have "of_int \<lfloor>p\<rfloor> \<le> p" by linarith
  ultimately show ?thesis using True by simp
next
  case False
  then have "\<lceil>p\<rceil> \<le> 0" by (simp add: ceiling_le_iff)
  moreover have "p \<le> of_int \<lceil>p\<rceil>" by linarith
  ultimately show ?thesis using False by simp
qed

lemma int_truediv_returns:
  assumes "1 \<le> b" and "\<bar>of_int a :: rat\<bar> \<le> 2 ^ 1023"
  shows "\<exists>q. int_truediv a b = Inr (Fin q)"
proof -
  have "\<bar>of_int a / of_int b :: rat\<bar> = \<bar>of_int a\<bar> / of_int b"
    using assms(1) by (simp add: abs_divide)
  also have "\<dots> \<le> \<bar>of_int a\<bar>"
    using assms(1) by (simp add: divide_le_eq mult_le_cancel_left1 abs_ge_zero)
  finally have "\<bar>of_int a / of_int b :: rat\<bar> \<le> 2 ^ 1023" using assms(2) by simp
  from fl_finite[OF this] assms(1) show ?thesis by (auto simp: int_truediv_def)
qed





subsection \<open>The recommended budget is truncated\<close>

lemma float_of_int_Fin: "float_of_int n = Inr x \<Longrightarrow> \<exists>c. x = Fin c \<and> fl (of_int n) = Fin c"
  by (cases "fl (of_int n)") (auto simp: float_of_int_def)

lemma py_int_Fin: "py_int x = Inr k \<Longrightarrow> \<exists>p. x = Fin p \<and> k = (if 0 \<le> p then \<lfloor>p\<rfloor> else \<lceil>p\<rceil>)"
  by (auto simp: py_int_def split: pyfloat.splits)

lemma calculate_recommended:
  "calculate_budget_scaling libm_pow cb rmin rmax tm = Inr r \<Longrightarrow>
     \<exists>bmul. math_pow libm_pow tm literal_1_3 = Inr bmul \<and>
       bnd (int_times_float cb bmul) py_int = Inr (recommended_budget r)"
  unfolding calculate_budget_scaling_def by (auto simp: bnd_eq_Inr)

subsection \<open>The computation returns within range\<close>

lemma pow2_le_971: "e \<le> 971 \<Longrightarrow> pow2 e \<le> 2 ^ 971"
proof (cases "0 \<le> e")
  case True
  assume "e \<le> 971"
  with True have "nat e \<le> 971" by simp
  then have "(2::rat) ^ nat e \<le> 2 ^ 971" by (intro power_increasing) simp_all
  with True show ?thesis by (simp add: pow2_def)
next
  case False
  have "1 / (2::rat) ^ nat (- e) \<le> 1" by simp
  also have "(1::rat) \<le> 2 ^ 971" by simp
  finally show ?thesis using False by (simp add: pow2_def)
qed

lemma fl_bound:
  assumes "fl x = Fin y"
  shows "\<bar>y\<bar> \<le> \<bar>x\<bar> + 2 ^ 970"
proof (cases "x = 0")
  case True
  with assms show ?thesis by (simp add: fl_0)
next
  case False
  define e where "e = max (binade x) (- 1022) - 52"
  define u where "u = pow2 e"
  define n where "n = round_half_even (x / u)"
  from assms False have y: "y = of_int n * u" and e: "e \<le> 971"
    by (auto simp: fl_def Let_def e_def n_def u_def split: if_splits)
  have u0: "0 < u" unfolding u_def by (rule pow2_pos)
  from pow2_le_971[OF e] have u1: "u \<le> 2 ^ 971" by (simp add: u_def)
  from round_half_even_bounds[of "x / u"]
  have b: "of_int n \<le> x / u + 1 / 2" "x / u - 1 / 2 \<le> of_int n" by (simp_all add: n_def)
  from b(1) u0 have "of_int n * u \<le> (x / u + 1 / 2) * u" by (intro mult_right_mono) simp_all
  also have "\<dots> = x + u / 2" using u0 by (simp add: field_simps)
  finally have up: "of_int n * u \<le> x + u / 2" .
  from b(2) u0 have "(x / u - 1 / 2) * u \<le> of_int n * u" by (intro mult_right_mono) simp_all
  moreover have "(x / u - 1 / 2) * u = x - u / 2" using u0 by (simp add: field_simps)
  ultimately have lo: "x - u / 2 \<le> of_int n * u" by simp
  have "u / 2 \<le> 2 ^ 970" using u1 by simp
  with up lo show ?thesis unfolding y by (simp add: abs_le_iff) linarith
qed

lemma fl_finite_bound:
  assumes "\<bar>x\<bar> \<le> 2 ^ 1023"
  shows "\<exists>y. fl x = Fin y \<and> \<bar>y\<bar> \<le> \<bar>x\<bar> + 2 ^ 970"
  using fl_finite[OF assms] fl_bound by blast

lemma bnd_returns: "m = Inr v \<Longrightarrow> \<exists>r. f v = Inr r \<Longrightarrow> \<exists>r. bnd m f = Inr r"
  by simp

lemma float_of_int_returns:
  assumes "\<bar>of_int n :: rat\<bar> \<le> 2 ^ 40"
  shows "\<exists>c. float_of_int n = Inr (Fin c) \<and> \<bar>c\<bar> \<le> 2 ^ 40 + 2 ^ 970"
proof -
  from assms have "\<bar>of_int n :: rat\<bar> \<le> 2 ^ 1023" by simp
  from fl_finite_bound[OF this] obtain c where "fl (of_int n) = Fin c"
    "\<bar>c\<bar> \<le> \<bar>of_int n\<bar> + 2 ^ 970" by blast
  with assms show ?thesis by (intro exI[of _ c]) (simp add: float_of_int_def)
qed

lemma product_returns:
  assumes "\<bar>c\<bar> \<le> 2 ^ 40 + 2 ^ 970" and "\<bar>t\<bar> \<le> 2 ^ 40"
  shows "\<exists>p. fmul (Fin c) (Fin t) = Fin p \<and> \<bar>p\<bar> \<le> 2 ^ 1023"
proof -
  have "\<bar>c * t\<bar> = \<bar>c\<bar> * \<bar>t\<bar>" by (rule abs_mult)
  also have "\<dots> \<le> (2 ^ 40 + 2 ^ 970) * 2 ^ 40"
    using assms by (intro mult_mono) simp_all
  finally have b: "\<bar>c * t\<bar> \<le> (2 ^ 40 + 2 ^ 970) * 2 ^ 40" .
  then have "\<bar>c * t\<bar> \<le> 2 ^ 1023" by simp
  from fl_finite_bound[OF this] obtain p where "fl (c * t) = Fin p"
    "\<bar>p\<bar> \<le> \<bar>c * t\<bar> + 2 ^ 970" by blast
  with b show ?thesis by (intro exI[of _ p]) simp
qed

lemma py_int_returns:
  assumes "\<bar>p\<bar> \<le> 2 ^ 1023"
  shows "\<exists>k. py_int (Fin p) = Inr k \<and> \<bar>of_int k :: rat\<bar> \<le> 2 ^ 1023"
  using trunc_abs[of p] assms by (simp add: py_int_def)

lemma int_times_float_returns:
  assumes "\<bar>of_int n :: rat\<bar> \<le> 2 ^ 40" and "\<bar>t\<bar> \<le> 2 ^ 40"
  shows "\<exists>k. bnd (int_times_float n (Fin t)) py_int = Inr k \<and> \<bar>of_int k :: rat\<bar> \<le> 2 ^ 1023"
proof -
  from float_of_int_returns[OF assms(1)] obtain c where
    c: "float_of_int n = Inr (Fin c)" "\<bar>c\<bar> \<le> 2 ^ 40 + 2 ^ 970" by blast
  from product_returns[OF c(2) assms(2)] obtain p where
    p: "fmul (Fin c) (Fin t) = Fin p" "\<bar>p\<bar> \<le> 2 ^ 1023" by blast
  from py_int_returns[OF p(2)] obtain k where
    "py_int (Fin p) = Inr k" "\<bar>of_int k :: rat\<bar> \<le> 2 ^ 1023" by blast
  with c(1) p(1) show ?thesis by (intro exI[of _ k]) (simp add: int_times_float_def)
qed

lemma fdiv_returns: "fpos y \<Longrightarrow> \<exists>z. fdiv x y = Inr z"
  by (cases y; cases x) (auto simp: fpos_def fsign_def split: if_splits)

lemma cost_returns:
  assumes "float_of_int cb = Inr c"
  shows "\<exists>z. (if fpos av then bnd (float_of_int cb) (\<lambda>f. fdiv f av) else Inr (Fin 0)) = Inr z"
  using assms fdiv_returns[of av c] by auto

lemma efficiency_returns:
  "\<exists>z. (if fpos cost then bnd (fdiv new_cost cost) (\<lambda>q. Inr (ratio_percent q)) else Inr (Fin 0)) =
        Inr z"
  using fdiv_returns[of cost new_cost] by auto

lemma quotient_returns:
  assumes "\<bar>of_int a :: rat\<bar> \<le> 2 ^ 1023"
  shows "\<exists>z. (if 0 < b then int_truediv a b else Inr (Fin 0)) = Inr z"
    and "\<exists>z. (if 0 < b then bnd (int_truediv a b) (\<lambda>q. Inr (ratio_percent q)) else Inr (Fin 0)) = Inr z"
proof -
  have "\<exists>q. int_truediv a b = Inr (Fin q)" if "0 < b"
    using that int_truediv_returns[of b a] assms by simp
  then show "\<exists>z. (if 0 < b then int_truediv a b else Inr (Fin 0)) = Inr z"
    and "\<exists>z. (if 0 < b then bnd (int_truediv a b) (\<lambda>q. Inr (ratio_percent q)) else Inr (Fin 0)) = Inr z"
    by auto
qed

lemma budget_scaling_returns:
  assumes "0 \<le> rmin" "rmin \<le> 2 ^ 40" "0 \<le> rmax" "rmax \<le> 2 ^ 40"
    and "0 \<le> cb" "cb \<le> 2 ^ 40" "0 \<le> t" "t \<le> 2 ^ 40"
    and "libm_pow t literal_1_3 = Fin bm" "0 \<le> bm" "bm \<le> 2 ^ 40"
  shows "\<exists>r. calculate_budget_scaling libm_pow cb rmin rmax (Fin t) = Inr r"
proof -
  have rb: "\<bar>of_int rmin :: rat\<bar> \<le> 2 ^ 40" "\<bar>of_int rmax :: rat\<bar> \<le> 2 ^ 40"
    "\<bar>of_int cb :: rat\<bar> \<le> 2 ^ 40" "\<bar>t\<bar> \<le> 2 ^ 40" "\<bar>bm\<bar> \<le> 2 ^ 40"
    using assms by (simp_all add: abs_le_iff of_int_le_numeral_power_cancel_iff) 
  have "\<bar>of_int (rmin + rmax) / of_int 2 :: rat\<bar> \<le> 2 ^ 40"
    using rb(1,2) assms(1,3) by (simp add: abs_le_iff) 
  then have "\<bar>of_int (rmin + rmax) / of_int 2 :: rat\<bar> \<le> 2 ^ 1023" by simp
  from fl_finite_bound[OF this] \<open>\<bar>of_int (rmin + rmax) / of_int 2 :: rat\<bar> \<le> 2 ^ 40\<close>
  obtain a where a: "int_truediv (rmin + rmax) 2 = Inr (Fin a)" "\<bar>a\<bar> \<le> 2 ^ 40 + 2 ^ 970"
    by (auto simp: int_truediv_def)
  from int_times_float_returns[OF rb(1) rb(4)] obtain k1 where
    k1: "bnd (int_times_float rmin (Fin t)) py_int = Inr k1" by blast
  from int_times_float_returns[OF rb(2) rb(4)] obtain k2 where
    k2: "bnd (int_times_float rmax (Fin t)) py_int = Inr k2" by blast
  from product_returns[OF a(2) rb(4)] obtain pa where
    pa: "fmul (Fin a) (Fin t) = Fin pa" "\<bar>pa\<bar> \<le> 2 ^ 1023" by blast
  from py_int_returns[OF pa(2)] obtain k3 where k3: "py_int (Fin pa) = Inr k3" by blast
  from assms(7,9) have mp: "math_pow libm_pow (Fin t) literal_1_3 = Inr (Fin bm)"
    by (simp add: math_pow_def)
  from int_times_float_returns[OF rb(3) rb(5)] obtain rec where
    rec: "bnd (int_times_float cb (Fin bm)) py_int = Inr rec" "\<bar>of_int rec :: rat\<bar> \<le> 2 ^ 1023"
    by blast
  from float_of_int_returns[OF rb(3)] obtain c where c: "float_of_int cb = Inr (Fin c)" by blast
  from cost_returns[OF c, of "Fin a"] obtain cost where
    cost: "(if fpos (Fin a) then bnd (float_of_int cb) (\<lambda>f. fdiv f (Fin a)) else Inr (Fin 0)) =
             Inr cost" by blast
  from quotient_returns(1)[OF rec(2), of k3] obtain new_cost where
    nc: "(if 0 < k3 then int_truediv rec k3 else Inr (Fin 0)) = Inr new_cost" by blast
  from quotient_returns(2)[OF rec(2), of cb] obtain inc where
    inc: "(if 0 < cb then bnd (int_truediv rec cb) (\<lambda>q. Inr (ratio_percent q))
           else Inr (Fin 0)) = Inr inc" by blast
  from efficiency_returns[of cost new_cost] obtain eff where
    eff: "(if fpos cost then bnd (fdiv new_cost cost) (\<lambda>q. Inr (ratio_percent q))
           else Inr (Fin 0)) = Inr eff" by blast
  show ?thesis
    unfolding calculate_budget_scaling_def
    by (simp only: a(1) k1 k2 pa(1) k3 mp rec(1) cost nc inc eff bnd_Inr) blast
qed

lemma recommended_budget_floor:
  assumes "0 < cb" and "1 < t"
    and "libm_pow t literal_1_3 = Fin bm" and "0 \<le> bm"
    and "calculate_budget_scaling libm_pow cb rmin rmax (Fin t) = Inr r"
  shows "\<exists>c p. float_of_int cb = Inr (Fin c) \<and> fmul (Fin c) (Fin bm) = Fin p \<and>
           of_int (recommended_budget r) \<le> p \<and> p < of_int (recommended_budget r) + 1"
proof -
  from assms(2,3) have mp: "math_pow libm_pow (Fin t) literal_1_3 = Inr (Fin bm)"
    by (simp add: math_pow_def)
  from calculate_recommended[OF assms(5)] mp
  have "bnd (int_times_float cb (Fin bm)) py_int = Inr (recommended_budget r)" by simp
  then obtain x y where f: "float_of_int cb = Inr x"
    and y: "y = fmul x (Fin bm)" and i: "py_int y = Inr (recommended_budget r)"
    by (auto simp: bnd_eq_Inr int_times_float_def)
  from float_of_int_Fin[OF f] obtain c where c: "x = Fin c" "fl (of_int cb) = Fin c" by blast
  from py_int_Fin[OF i] obtain p where p: "y = Fin p"
    "recommended_budget r = (if 0 \<le> p then \<lfloor>p\<rfloor> else \<lceil>p\<rceil>)" by blast
  from assms(1) have "(0::rat) \<le> of_int cb" by simp
  from fl_nonneg[OF this c(2)] have c0: "0 \<le> c" .
  with assms(4) have "0 \<le> c * bm" by simp
  moreover from y c p have m: "fl (c * bm) = Fin p" by simp
  ultimately have p0: "0 \<le> p" by (rule fl_nonneg)
  with p(2) have "recommended_budget r = \<lfloor>p\<rfloor>" by simp
  then have b: "of_int (recommended_budget r) \<le> p" "p < of_int (recommended_budget r) + 1"
    by linarith+
  from f c(1) have "float_of_int cb = Inr (Fin c)" by simp
  moreover from m have "fmul (Fin c) (Fin bm) = Fin p" by simp
  ultimately show ?thesis using b by blast
qed

text \<open>
  Claim C4, amended: for every budget above 0 and every multiplier above 1, with \<open>bm\<close>
  the value that \<^verbatim>\<open>math.pow(target_multiplier, 1.3)\<close> returns (not negative, as a power
  is), the \<^verbatim>\<open>recommended_budget\<close> that a call returns is the double-precision product of
  the budget and \<open>bm\<close> truncated by \<^verbatim>\<open>int\<close>: the greatest integer that is not above the
  product. It is not the nearest integer. The call does return when the budget, the
  multiplier, \<open>bm\<close> and the two reach bounds (not negative) are at most \<open>2\<^sup>4\<^sup>0\<close>.
\<close>

theorem recommended_budget_truncates:
  assumes "0 < cb" and "1 < t"
    and "libm_pow t literal_1_3 = Fin bm" and "0 \<le> bm"
  shows "(\<forall>r. calculate_budget_scaling libm_pow cb rmin rmax (Fin t) = Inr r \<longrightarrow>
            (\<exists>c p. float_of_int cb = Inr (Fin c) \<and> fmul (Fin c) (Fin bm) = Fin p \<and>
               of_int (recommended_budget r) \<le> p \<and> p < of_int (recommended_budget r) + 1)) \<and>
         (cb \<le> 2 ^ 40 \<and> t \<le> 2 ^ 40 \<and> bm \<le> 2 ^ 40 \<and>
          0 \<le> rmin \<and> rmin \<le> 2 ^ 40 \<and> 0 \<le> rmax \<and> rmax \<le> 2 ^ 40 \<longrightarrow>
            (\<exists>r. calculate_budget_scaling libm_pow cb rmin rmax (Fin t) = Inr r))"
proof (intro conjI allI impI)
  fix r
  assume "calculate_budget_scaling libm_pow cb rmin rmax (Fin t) = Inr r"
  from recommended_budget_floor[OF assms this]
  show "\<exists>c p. float_of_int cb = Inr (Fin c) \<and> fmul (Fin c) (Fin bm) = Fin p \<and>
               of_int (recommended_budget r) \<le> p \<and> p < of_int (recommended_budget r) + 1" .
next
  assume b: "cb \<le> 2 ^ 40 \<and> t \<le> 2 ^ 40 \<and> bm \<le> 2 ^ 40 \<and>
          0 \<le> rmin \<and> rmin \<le> 2 ^ 40 \<and> 0 \<le> rmax \<and> rmax \<le> 2 ^ 40"
  from assms(1,2) have "0 \<le> cb" "0 \<le> t" by simp_all
  with b assms(3,4) show "\<exists>r. calculate_budget_scaling libm_pow cb rmin rmax (Fin t) = Inr r"
    by (intro budget_scaling_returns[of rmin rmax cb t libm_pow bm]) simp_all
qed

text \<open>
  Witness for C4: a budget of 2500, reach bounds 15000 and 20000 and the multiplier 2.0;
  the call returns, and the product lies between 6155 and 6156.
\<close>

theorem recommended_budget_truncates_witness:
  "(\<exists>r. calculate_budget_scaling sample_libm_pow 2500 15000 20000 (Fin 2) = Inr r) \<and>
   (\<exists>c p. float_of_int 2500 = Inr (Fin c) \<and>
      fmul (Fin c) (Fin (5544581521179433 / 2251799813685248)) = Fin p \<and>
      6155 \<le> p \<and> p < 6156)"
proof -
  have s: "sample_libm_pow 2 literal_1_3 = Fin (5544581521179433 / 2251799813685248)"
    by (simp add: sample_libm_pow_def)
  have h: "(0::int) < 2500" "(1::rat) < 2" "(0::rat) \<le> 5544581521179433 / 2251799813685248"
    by simp_all
  from recommended_budget_truncates[of 2500 2 sample_libm_pow
      "5544581521179433 / 2251799813685248" 15000 20000, OF h(1,2) s h(3)]
    budget_scaling_sample
  show ?thesis by simp
qed

end
